theory Spec2Isabelle
  imports Main "HOL-Library.Sublist" "HOL-Library.AList"
begin

section \<open>Data model (types/index.ts)\<close>

text \<open>
  Strings are \<^typ>\<open>string\<close>, lists of code units below 0x100 (the section on
  search says how whitespace and case are read on them); a \<open>Date\<close> is its
  \<open>getTime()\<close> value, an integer number of milliseconds. An optional property
  (\<open>notes?: string\<close>) is an \<^typ>\<open>'a option\<close>, with \<open>None\<close> for \<open>undefined\<close>.
\<close>

datatype TaskStatus = PENDING | IN_PROGRESS | COMPLETED | BLOCKED

record TaskDependency =
  taskId :: string

datatype RelatedFileType = TO_MODIFY | REFERENCE | CREATE | DEPENDENCY | OTHER

record RelatedFile =
  path :: string
  type_rf :: RelatedFileType
  description_rf :: "string option"
  lineStart :: "int option"
  lineEnd :: "int option"

type_synonym Date = int

record Task =
  task_id :: string
  name :: string
  description :: string
  notes_task :: "string option"
  status :: TaskStatus
  dependencies :: "TaskDependency list"
  createdAt :: Date
  updatedAt :: Date
  completedAt :: "Date option"
  summary :: "string option"
  relatedFiles :: "RelatedFile list option"
  analysisResult :: "string option"
  implementationGuide :: "string option"
  verificationCriteria :: "string option"

text \<open>The element type of \<open>taskDataList\<close> in \<open>batchCreateOrUpdateTasks\<close>.\<close>

record TaskData =
  td_name :: string
  td_description :: string
  td_notes :: "string option"
  td_dependencies :: "string list option"
  td_relatedFiles :: "RelatedFile list option"
  td_implementationGuide :: "string option"
  td_verificationCriteria :: "string option"

datatype UpdateMode = append_mode | overwrite_mode | selective_mode | clearAllTasks_mode

text \<open>
  The only exception the modelled code can raise by itself: assigning a property of
  \<open>undefined\<close>. Failures of the file system are outside the model.
\<close>

datatype error = TypeError

section \<open>Array helpers\<close>

text \<open>\<open>Array.prototype.findIndex\<close>; \<open>None\<close> stands for the result \<open>-1\<close>.\<close>

fun findIndex :: "('a \<Rightarrow> bool) \<Rightarrow> 'a list \<Rightarrow> nat option" where
  "findIndex P [] = None"
| "findIndex P (x # xs) = (if P x then Some 0 else map_option Suc (findIndex P xs))"

section \<open>Reconciliation: batchCreateOrUpdateTasks (models/taskModel.ts)\<close>

definition is_hex :: "char \<Rightarrow> bool" where
  "is_hex c = (c \<in> set ''0123456789abcdefABCDEF'')"

text \<open>
  The test \<open>dependencyName.match(/^[0-9a-f]{8}-[0-9a-f]{4}-[0-9a-f]{4}-[0-9a-f]{4}-[0-9a-f]{12}$/i)\<close>:
  36 characters, hyphens at positions 8, 13, 18 and 23, hexadecimal digits of either
  case elsewhere.
\<close>

definition matches_uuid :: "string \<Rightarrow> bool" where
  "matches_uuid s =
     (length s = 36 \<and>
      list_all is_hex (take 8 s) \<and> s ! 8 = CHR ''-'' \<and>
      list_all is_hex (take 4 (drop 9 s)) \<and> s ! 13 = CHR ''-'' \<and>
      list_all is_hex (take 4 (drop 14 s)) \<and> s ! 18 = CHR ''-'' \<and>
      list_all is_hex (take 4 (drop 19 s)) \<and> s ! 23 = CHR ''-'' \<and>
      list_all is_hex (drop 24 s))"

text \<open>
  The mutable locals of \<open>batchCreateOrUpdateTasks\<close> that the loop over
  \<open>taskDataList\<close> changes. \<open>uuid_calls\<close> counts the calls of \<open>uuidv4()\<close> made so
  far: the generator is a parameter \<open>uuidv4 :: nat \<Rightarrow> string\<close> giving the result of
  the k-th call.
\<close>

record BatchState =
  tasksToKeep :: "Task list"
  taskNameToIdMap :: "string \<rightharpoonup> string"
  newTasks :: "Task list"
  uuid_calls :: nat

text \<open>Lines 296-316: the tasks kept from the existing store, by mode.\<close>

definition initialTasksToKeep :: "Task list \<Rightarrow> TaskData list \<Rightarrow> UpdateMode \<Rightarrow> Task list" where
  "initialTasksToKeep existingTasks taskDataList updateMode =
     (case updateMode of
        append_mode \<Rightarrow> existingTasks
      | overwrite_mode \<Rightarrow> filter (\<lambda>task. status task = COMPLETED) existingTasks
      | selective_mode \<Rightarrow>
          filter (\<lambda>task. name task \<notin> set (map td_name taskDataList)) existingTasks
      | clearAllTasks_mode \<Rightarrow> [])"

text \<open>\<open>tasks.forEach((task) => taskNameToIdMap.set(task.name, task.id))\<close>\<close>

definition recordNames :: "Task list \<Rightarrow> (string \<rightharpoonup> string) \<Rightarrow> (string \<rightharpoonup> string)" where
  "recordNames tasks m = foldl (\<lambda>m task. m(name task \<mapsto> task_id task)) m tasks"

text \<open>Lines 318-331: the name to identifier map before the loop.\<close>

definition initialNameToIdMap :: "Task list \<Rightarrow> Task list \<Rightarrow> UpdateMode \<Rightarrow> (string \<rightharpoonup> string)" where
  "initialNameToIdMap existingTasks keep updateMode =
     recordNames keep
       (if updateMode = selective_mode then recordNames existingTasks Map.empty else Map.empty)"

text \<open>
  Lines 355-370: the object \<open>updatedTask\<close> built from the existing task and the
  spec. Every \<open>new Date()\<close> of one call reads the same clock value \<open>now\<close>.
\<close>

definition updatedTaskOf :: "Date \<Rightarrow> string option \<Rightarrow> Task \<Rightarrow> TaskData \<Rightarrow> Task" where
  "updatedTaskOf now globalAnalysisResult taskToUpdate taskData =
     (let updatedTask = taskToUpdate
            \<lparr> name := td_name taskData,
              description := td_description taskData,
              notes_task := td_notes taskData,
              updatedAt := now,
              analysisResult := globalAnalysisResult,
              implementationGuide := td_implementationGuide taskData,
              verificationCriteria := td_verificationCriteria taskData \<rparr>
      in case td_relatedFiles taskData of
           None \<Rightarrow> updatedTask
         | Some files \<Rightarrow> updatedTask \<lparr> relatedFiles := Some files \<rparr>)"

text \<open>Lines 385-398: the object \<open>newTask\<close>.\<close>

definition newTaskOf :: "string \<Rightarrow> Date \<Rightarrow> string option \<Rightarrow> TaskData \<Rightarrow> Task" where
  "newTaskOf newTaskId now globalAnalysisResult taskData =
     \<lparr> task_id = newTaskId,
       name = td_name taskData,
       description = td_description taskData,
       notes_task = td_notes taskData,
       status = PENDING,
       dependencies = [],
       createdAt = now,
       updatedAt = now,
       completedAt = None,
       summary = None,
       relatedFiles = td_relatedFiles taskData,
       analysisResult = globalAnalysisResult,
       implementationGuide = td_implementationGuide taskData,
       verificationCriteria = td_verificationCriteria taskData \<rparr>"

text \<open>
  Lines 336-402: the body of the loop \<open>for (const taskData of taskDataList)\<close>. In
  selective mode a name found in the map leads to the update branch, which does nothing
  when the identifier is not among the existing tasks or the task is COMPLETED.
\<close>

definition materialize ::
  "(nat \<Rightarrow> string) \<Rightarrow> Date \<Rightarrow> Task list \<Rightarrow> UpdateMode \<Rightarrow> string option \<Rightarrow>
     BatchState \<Rightarrow> TaskData \<Rightarrow> BatchState" where
  "materialize uuidv4 now existingTasks updateMode globalAnalysisResult st taskData =
     (case (if updateMode = selective_mode then taskNameToIdMap st (td_name taskData) else None) of
        Some existingTaskId \<Rightarrow>
          (case findIndex (\<lambda>task. task_id task = existingTaskId) existingTasks of
             None \<Rightarrow> st
           | Some existingTaskIndex \<Rightarrow>
               if status (existingTasks ! existingTaskIndex) \<noteq> COMPLETED then
                 let taskToUpdate = existingTasks ! existingTaskIndex;
                     updatedTask = updatedTaskOf now globalAnalysisResult taskToUpdate taskData
                 in st \<lparr> newTasks := newTasks st @ [updatedTask],
                         tasksToKeep :=
                           filter (\<lambda>task. task_id task \<noteq> existingTaskId) (tasksToKeep st) \<rparr>
               else st)
      | None \<Rightarrow>
          let newTaskId = uuidv4 (uuid_calls st);
              newTask = newTaskOf newTaskId now globalAnalysisResult taskData
          in st \<lparr> uuid_calls := Suc (uuid_calls st),
                  taskNameToIdMap := (taskNameToIdMap st)(td_name taskData \<mapsto> newTaskId),
                  newTasks := newTasks st @ [newTask] \<rparr>)"

text \<open>
  Lines 413-440: the inner loop over one spec's \<open>dependencies\<close>; \<open>allTasks\<close> is
  \<open>[...tasksToKeep, ...newTasks]\<close>. An entry that resolves to nothing is skipped.
\<close>

fun resolveDependencies ::
  "(string \<rightharpoonup> string) \<Rightarrow> Task list \<Rightarrow> string list \<Rightarrow> TaskDependency list" where
  "resolveDependencies m allTasks [] = []"
| "resolveDependencies m allTasks (dependencyName # rest) =
     (if \<not> matches_uuid dependencyName then
        (case m dependencyName of
           Some dependencyTaskId \<Rightarrow>
             \<lparr> taskId = dependencyTaskId \<rparr> # resolveDependencies m allTasks rest
         | None \<Rightarrow> resolveDependencies m allTasks rest)
      else if list_ex (\<lambda>task. task_id task = dependencyName) allTasks then
        \<lparr> taskId = dependencyName \<rparr> # resolveDependencies m allTasks rest
      else resolveDependencies m allTasks rest)"

text \<open>
  Lines 404-444: the loop \<open>for (let i = 0; i < taskDataList.length; i++)\<close>, run from
  index \<open>i\<close> over the specs that remain. \<open>newTasks[i]\<close> is \<open>undefined\<close> when
  \<open>i\<close> is not below \<open>newTasks.length\<close>, and the assignment
  \<open>newTask.dependencies = resolvedDependencies\<close> then throws a TypeError.
\<close>

text \<open>
  \<open>taskData.dependencies\<close> read as a list (none when the property is absent), and the
  guard \<open>taskData.dependencies && taskData.dependencies.length > 0\<close>.
\<close>

definition dependencyNames :: "TaskData \<Rightarrow> string list" where
  "dependencyNames taskData = (case td_dependencies taskData of None \<Rightarrow> [] | Some deps \<Rightarrow> deps)"

definition hasDependencies :: "TaskData \<Rightarrow> bool" where
  "hasDependencies taskData =
     (case td_dependencies taskData of None \<Rightarrow> False | Some deps \<Rightarrow> length deps > 0)"

fun fixupDependencies ::
  "(string \<rightharpoonup> string) \<Rightarrow> Task list \<Rightarrow> nat \<Rightarrow> TaskData list \<Rightarrow> Task list \<Rightarrow> error + Task list" where
  "fixupDependencies m keep i [] new = Inr new"
| "fixupDependencies m keep i (taskData # rest) new =
     (if hasDependencies taskData then
        let resolvedDependencies = resolveDependencies m (keep @ new) (dependencyNames taskData)
        in if i < length new then
             fixupDependencies m keep (Suc i) rest
               (new [i := (new ! i) \<lparr> dependencies := resolvedDependencies \<rparr>])
           else Inl TypeError
      else fixupDependencies m keep (Suc i) rest new)"

text \<open>The state after the loop of lines 336-402.\<close>

definition materializeAll ::
  "(nat \<Rightarrow> string) \<Rightarrow> Date \<Rightarrow> Task list \<Rightarrow> TaskData list \<Rightarrow> UpdateMode \<Rightarrow> string option \<Rightarrow>
     BatchState" where
  "materializeAll uuidv4 now existingTasks taskDataList updateMode globalAnalysisResult =
     (let keep = initialTasksToKeep existingTasks taskDataList updateMode
      in foldl (materialize uuidv4 now existingTasks updateMode globalAnalysisResult)
           \<lparr> tasksToKeep = keep,
             taskNameToIdMap = initialNameToIdMap existingTasks keep updateMode,
             newTasks = [],
             uuid_calls = 0 \<rparr>
           taskDataList)"

text \<open>
  \<open>batchCreateOrUpdateTasks\<close>, given the tasks read from the store. \<open>Inr (returned,
  written)\<close> is the returned \<open>newTasks\<close> and the list passed to \<open>writeTasks\<close>;
  \<open>Inl TypeError\<close> is the exception, thrown before anything is written.
\<close>

definition batchCreateOrUpdateTasks ::
  "(nat \<Rightarrow> string) \<Rightarrow> Date \<Rightarrow> Task list \<Rightarrow> TaskData list \<Rightarrow> UpdateMode \<Rightarrow> string option \<Rightarrow>
     error + (Task list \<times> Task list)" where
  "batchCreateOrUpdateTasks uuidv4 now existingTasks taskDataList updateMode globalAnalysisResult =
     (let st = materializeAll uuidv4 now existingTasks taskDataList updateMode globalAnalysisResult
      in case fixupDependencies (taskNameToIdMap st) (tasksToKeep st) 0 taskDataList (newTasks st) of
           Inl e \<Rightarrow> Inl e
         | Inr new \<Rightarrow> Inr (new, tasksToKeep st @ new))"

section \<open>Single-task operations (models/taskModel.ts)\<close>

text \<open>
  Each operation reads the whole store, works on the list in memory and writes the
  whole list back. The store is the list of tasks of \<open>tasks.json\<close>; an operation
  takes it and returns its result together with the store it leaves.
\<close>

definition getTaskById :: "Task list \<Rightarrow> string \<Rightarrow> Task option" where
  "getTaskById tasks taskId' = find (\<lambda>task. task_id task = taskId') tasks"

text \<open>
  \<open>Partial<Task>\<close>: a key that is absent is \<open>None\<close>. For an optional property of
  \<open>Task\<close> the key can be present with the value \<open>undefined\<close>, which is
  \<open>Some None\<close>.
\<close>

record TaskUpdates =
  u_id :: "string option"
  u_name :: "string option"
  u_description :: "string option"
  u_notes :: "string option option"
  u_status :: "TaskStatus option"
  u_dependencies :: "TaskDependency list option"
  u_createdAt :: "Date option"
  u_updatedAt :: "Date option"
  u_completedAt :: "Date option option"
  u_summary :: "string option option"
  u_relatedFiles :: "RelatedFile list option option"
  u_analysisResult :: "string option option"
  u_implementationGuide :: "string option option"
  u_verificationCriteria :: "string option option"

text \<open>The object \<open>{}\<close>.\<close>

definition noUpdates :: TaskUpdates where
  "noUpdates =
     \<lparr> u_id = None, u_name = None, u_description = None, u_notes = None, u_status = None,
       u_dependencies = None, u_createdAt = None, u_updatedAt = None, u_completedAt = None,
       u_summary = None, u_relatedFiles = None, u_analysisResult = None,
       u_implementationGuide = None, u_verificationCriteria = None \<rparr>"

definition key_if :: "'a option \<Rightarrow> string \<Rightarrow> string list" where
  "key_if v k = (case v of None \<Rightarrow> [] | Some _ \<Rightarrow> [k])"

text \<open>\<open>Object.keys(updates)\<close>; only membership in the list is used by the code.\<close>

definition Object_keys :: "TaskUpdates \<Rightarrow> string list" where
  "Object_keys u =
     key_if (u_id u) ''id'' @ key_if (u_name u) ''name'' @
     key_if (u_description u) ''description'' @ key_if (u_notes u) ''notes'' @
     key_if (u_status u) ''status'' @ key_if (u_dependencies u) ''dependencies'' @
     key_if (u_createdAt u) ''createdAt'' @ key_if (u_updatedAt u) ''updatedAt'' @
     key_if (u_completedAt u) ''completedAt'' @ key_if (u_summary u) ''summary'' @
     key_if (u_relatedFiles u) ''relatedFiles'' @
     key_if (u_analysisResult u) ''analysisResult'' @
     key_if (u_implementationGuide u) ''implementationGuide'' @
     key_if (u_verificationCriteria u) ''verificationCriteria''"

definition override :: "'a \<Rightarrow> 'a option \<Rightarrow> 'a" where
  "override old new = (case new of None \<Rightarrow> old | Some v \<Rightarrow> v)"

text \<open>The object spread \<open>{ ...task, ...updates }\<close>.\<close>

definition spread :: "Task \<Rightarrow> TaskUpdates \<Rightarrow> Task" where
  "spread t u =
     \<lparr> task_id = override (task_id t) (u_id u),
       name = override (name t) (u_name u),
       description = override (description t) (u_description u),
       notes_task = override (notes_task t) (u_notes u),
       status = override (status t) (u_status u),
       dependencies = override (dependencies t) (u_dependencies u),
       createdAt = override (createdAt t) (u_createdAt u),
       updatedAt = override (updatedAt t) (u_updatedAt u),
       completedAt = override (completedAt t) (u_completedAt u),
       summary = override (summary t) (u_summary u),
       relatedFiles = override (relatedFiles t) (u_relatedFiles u),
       analysisResult = override (analysisResult t) (u_analysisResult u),
       implementationGuide = override (implementationGuide t) (u_implementationGuide u),
       verificationCriteria = override (verificationCriteria t) (u_verificationCriteria u) \<rparr>"

definition allowedFields :: "string list" where
  "allowedFields = [''summary'', ''relatedFiles'']"

text \<open>
  \<open>updateTask\<close>: the result (\<open>None\<close> for \<open>null\<close>) and the store afterwards. The
  store is written only on the last path.
\<close>

definition updateTask :: "Date \<Rightarrow> Task list \<Rightarrow> string \<Rightarrow> TaskUpdates \<Rightarrow> Task option \<times> Task list" where
  "updateTask now tasks taskId' updates =
     (case findIndex (\<lambda>task. task_id task = taskId') tasks of
        None \<Rightarrow> (None, tasks)
      | Some taskIndex \<Rightarrow>
          if status (tasks ! taskIndex) = COMPLETED \<and>
             filter (\<lambda>field. field \<notin> set allowedFields) (Object_keys updates) \<noteq> []
          then (None, tasks)
          else
            let tasks' = tasks [taskIndex := (spread (tasks ! taskIndex) updates) \<lparr> updatedAt := now \<rparr>]
            in (Some (tasks' ! taskIndex), tasks'))"

definition updateTaskStatus :: "Date \<Rightarrow> Task list \<Rightarrow> string \<Rightarrow> TaskStatus \<Rightarrow> Task option \<times> Task list" where
  "updateTaskStatus now tasks taskId' status' =
     updateTask now tasks taskId'
       (noUpdates \<lparr> u_status := Some status',
                    u_completedAt := (if status' = COMPLETED then Some (Some now) else None) \<rparr>)"

definition updateTaskSummary :: "Date \<Rightarrow> Task list \<Rightarrow> string \<Rightarrow> string \<Rightarrow> Task option \<times> Task list" where
  "updateTaskSummary now tasks taskId' summary' =
     updateTask now tasks taskId' (noUpdates \<lparr> u_summary := Some (Some summary') \<rparr>)"

text \<open>The \<open>updates\<close> parameter of \<open>updateTaskContent\<close>.\<close>

record ContentUpdates =
  cu_name :: "string option"
  cu_description :: "string option"
  cu_notes :: "string option"
  cu_relatedFiles :: "RelatedFile list option"
  cu_dependencies :: "string list option"
  cu_implementationGuide :: "string option"
  cu_verificationCriteria :: "string option"

text \<open>The result objects \<open>{ success, message }\<close>, with \<open>task?\<close> or \<open>backupFile?\<close>.\<close>

record OpResult =
  success :: bool
  message :: string

record UpdateResult = OpResult +
  task :: "Task option"

record ClearResult = OpResult +
  backupFile :: "string option"

text \<open>Lines 194-224: \<open>updateObj\<close>, holding the keys that are not \<open>undefined\<close>.\<close>

definition updateObj :: "ContentUpdates \<Rightarrow> TaskUpdates" where
  "updateObj updates =
     noUpdates
       \<lparr> u_name := cu_name updates,
         u_description := cu_description updates,
         u_notes := map_option Some (cu_notes updates),
         u_dependencies :=
           map_option (map (\<lambda>dep. \<lparr> taskId = dep \<rparr>)) (cu_dependencies updates),
         u_relatedFiles := map_option Some (cu_relatedFiles updates),
         u_implementationGuide := map_option Some (cu_implementationGuide updates),
         u_verificationCriteria := map_option Some (cu_verificationCriteria updates) \<rparr>"

definition updateTaskContent ::
  "Date \<Rightarrow> Task list \<Rightarrow> string \<Rightarrow> ContentUpdates \<Rightarrow> UpdateResult \<times> Task list" where
  "updateTaskContent now tasks taskId' updates =
     (case getTaskById tasks taskId' of
        None \<Rightarrow> (\<lparr> success = False, message = ''Task not found'', task = None \<rparr>, tasks)
      | Some t \<Rightarrow>
          if status t = COMPLETED then
            (\<lparr> success = False, message = ''Cannot update completed task'', task = None \<rparr>, tasks)
          else if Object_keys (updateObj updates) = [] then
            (\<lparr> success = True, message = ''No updates provided'', task = Some t \<rparr>, tasks)
          else
            (case updateTask now tasks taskId' (updateObj updates) of
               (None, tasks') \<Rightarrow>
                 (\<lparr> success = False, message = ''Error updating task'', task = None \<rparr>, tasks')
             | (Some updatedTask, tasks') \<Rightarrow>
                 (\<lparr> success = True, message = ''Task content updated successfully'',
                    task = Some updatedTask \<rparr>, tasks')))"

subsection \<open>deleteTask\<close>

text \<open>
  Removing one index: both \<open>tasks.filter((_, index) => index !== taskIndex)\<close> and
  \<open>tasks.splice(taskIndex, 1)\<close>.
\<close>

definition removeAt :: "nat \<Rightarrow> 'a list \<Rightarrow> 'a list" where
  "removeAt i xs = take i xs @ drop (Suc i) xs"

text \<open>\<open>Array.prototype.join\<close> on strings.\<close>

fun join :: "string \<Rightarrow> string list \<Rightarrow> string" where
  "join sep [] = []"
| "join sep [x] = x"
| "join sep (x # y # ys) = x @ sep @ join sep (y # ys)"

text \<open>The template \<open>`"${task.name}" (ID: ${task.id})`\<close>.\<close>

definition dependentTaskName :: "Task \<Rightarrow> string" where
  "dependentTaskName t = [CHR 0x22] @ name t @ [CHR 0x22] @ '' (ID: '' @ task_id t @ '')''"

definition dependentTasksOf :: "Task list \<Rightarrow> nat \<Rightarrow> string \<Rightarrow> Task list" where
  "dependentTasksOf tasks taskIndex taskId' =
     filter (\<lambda>t. list_ex (\<lambda>dep. taskId dep = taskId') (dependencies t))
       (removeAt taskIndex tasks)"

definition deleteTask :: "Task list \<Rightarrow> string \<Rightarrow> OpResult \<times> Task list" where
  "deleteTask tasks taskId' =
     (case findIndex (\<lambda>task. task_id task = taskId') tasks of
        None \<Rightarrow> (\<lparr> success = False, message = ''Task not found'' \<rparr>, tasks)
      | Some taskIndex \<Rightarrow>
          if status (tasks ! taskIndex) = COMPLETED then
            (\<lparr> success = False, message = ''Cannot delete completed task'' \<rparr>, tasks)
          else
            let dependentTasks = dependentTasksOf tasks taskIndex taskId'
            in if length dependentTasks > 0 then
                 (\<lparr> success = False,
                    message =
                      ''Cannot delete this task because the following tasks depend on it: '' @
                      join '', '' (map dependentTaskName dependentTasks) \<rparr>,
                  tasks)
               else
                 (\<lparr> success = True, message = ''Task deleted successfully'' \<rparr>,
                  removeAt taskIndex tasks))"

subsection \<open>clearAllTasks\<close>

text \<open>
  The files the operations touch: \<open>tasks.json\<close> and the documents of the
  \<open>memory\<close> directory, by file name. Reads and writes are taken to succeed, so the
  \<open>catch\<close> branch of \<open>clearAllTasks\<close> is not part of the model.
\<close>

record FileSystem =
  tasks_file :: "Task list"
  memory_dir :: "string \<rightharpoonup> Task list"

text \<open>\<open>.replace(/:/g, "-")\<close>\<close>

definition replaceColons :: "string \<Rightarrow> string" where
  "replaceColons s = map (\<lambda>c. if c = CHR '':'' then CHR ''-'' else c) s"

definition isLineTerminator :: "char \<Rightarrow> bool" where
  "isLineTerminator c = (c = CHR 0x0A \<or> c = CHR 0x0D)"

text \<open>
  \<open>.replace(/\..+/, "")\<close>: the first dot that is followed by a character other than a
  line terminator is removed together with the rest of its line.
\<close>

fun removeFraction :: "string \<Rightarrow> string" where
  "removeFraction [] = []"
| "removeFraction [c] = [c]"
| "removeFraction (c # d # s) =
     (if c = CHR ''.'' \<and> \<not> isLineTerminator d
      then dropWhile (\<lambda>x. \<not> isLineTerminator x) s
      else c # removeFraction (d # s))"

text \<open>Decimal digits of a number, as template literals print \<open>length\<close>.\<close>

fun showNat :: "nat \<Rightarrow> string" where
  "showNat n =
     (if n < 10 then [char_of (48 + n)]
      else showNat (n div 10) @ [char_of (48 + n mod 10)])"

text \<open>\<open>isoNow\<close> is the value of \<open>new Date().toISOString()\<close>.\<close>

definition backupFileNameAt :: "string \<Rightarrow> string" where
  "backupFileNameAt isoNow = ''tasks_memory_'' @ removeFraction (replaceColons isoNow) @ ''.json''"

definition clearAllTasks :: "string \<Rightarrow> FileSystem \<Rightarrow> ClearResult \<times> FileSystem" where
  "clearAllTasks isoNow fs =
     (let allTasks = tasks_file fs
      in if length allTasks = 0 then
           (\<lparr> success = True, message = ''No tasks to clear'', backupFile = None \<rparr>, fs)
         else
           let completedTasks = filter (\<lambda>task. status task = COMPLETED) allTasks;
               backupFileName = backupFileNameAt isoNow
           in (\<lparr> success = True,
                 message =
                   ''Successfully cleared all tasks, '' @ showNat (length allTasks) @
                   '' tasks deleted, backed up '' @ showNat (length completedTasks) @
                   '' completed tasks to memory directory'',
                 backupFile = Some backupFileName \<rparr>,
               fs \<lparr> memory_dir := (memory_dir fs)(backupFileName \<mapsto> completedTasks),
                    tasks_file := [] \<rparr>))"

section \<open>Search (models/taskModel.ts)\<close>

text \<open>
  A JavaScript string is a sequence of UTF-16 code units. A \<^typ>\<open>char\<close> is one
  code unit below 0x100 (a character of Latin-1), whose number is \<open>of_char\<close>; the
  strings of the model are the strings of such code units. On them the class \<open>\s\<close>
  of \<open>query.split(/\s+/)\<close> holds the code units 0x09 to 0x0D (tab, line feed,
  vertical tab, form feed, carriage return), 0x20 (space) and 0xA0 (no-break space),
  and \<open>String.prototype.toLowerCase\<close> changes every code unit on its own and keeps
  the length: it adds 0x20 to the code units 0x41 to 0x5A (A to Z) and 0xC0 to 0xDE
  other than 0xD7 (the multiplication sign), and leaves the others as they are.
\<close>

definition isWhitespace :: "char \<Rightarrow> bool" where
  "isWhitespace c =
     (let n = of_char c :: nat
      in (0x09 \<le> n \<and> n \<le> 0x0D) \<or> n = 0x20 \<or> n = 0xA0)"

definition lowerChar :: "char \<Rightarrow> char" where
  "lowerChar c =
     (let n = of_char c :: nat
      in if (0x41 \<le> n \<and> n \<le> 0x5A) \<or> (0xC0 \<le> n \<and> n \<le> 0xDE \<and> n \<noteq> 0xD7)
         then char_of (n + 0x20)
         else c)"

definition toLowerCase :: "string \<Rightarrow> string" where
  "toLowerCase s = map lowerChar s"

text \<open>
  \<open>query.split(/\s+/)\<close>: \<open>cur\<close> is the piece being read and \<open>inSep\<close> tells
  that the last character read was whitespace. A separator at either end of the
  string gives an empty piece there.
\<close>

fun splitWs :: "bool \<Rightarrow> string \<Rightarrow> string \<Rightarrow> string list" where
  "splitWs inSep cur [] = [cur]"
| "splitWs inSep cur (c # cs) =
     (if isWhitespace c then
        (if inSep then splitWs True [] cs else cur # splitWs True [] cs)
      else splitWs False (cur @ [c]) cs)"

definition splitWhitespace :: "string \<Rightarrow> string list" where
  "splitWhitespace s = splitWs False [] s"

text \<open>\<open>query.split(/\s+/).filter((k) => k.length > 0)\<close>\<close>

definition keywordsOf :: "string \<Rightarrow> string list" where
  "keywordsOf query = filter (\<lambda>k. length k > 0) (splitWhitespace query)"

text \<open>\<open>String.prototype.includes\<close>\<close>

fun includes_str :: "string \<Rightarrow> string \<Rightarrow> bool" where
  "includes_str [] k = (k = [])"
| "includes_str (c # s) k = (prefix k (c # s) \<or> includes_str s k)"

text \<open>
  \<open>task.notes && task.notes.toLowerCase().includes(lowerKeyword)\<close>: an absent or
  empty string is falsy.
\<close>

definition optIncludes :: "string option \<Rightarrow> string \<Rightarrow> bool" where
  "optIncludes field lowerKeyword =
     (case field of
        None \<Rightarrow> False
      | Some s \<Rightarrow> s \<noteq> [] \<and> includes_str (toLowerCase s) lowerKeyword)"

definition keywordMatches :: "Task \<Rightarrow> string \<Rightarrow> bool" where
  "keywordMatches t keyword =
     (let lowerKeyword = toLowerCase keyword
      in includes_str (toLowerCase (name t)) lowerKeyword \<or>
         includes_str (toLowerCase (description t)) lowerKeyword \<or>
         optIncludes (notes_task t) lowerKeyword \<or>
         optIncludes (implementationGuide t) lowerKeyword \<or>
         optIncludes (summary t) lowerKeyword)"

definition filterCurrentTasks :: "Task list \<Rightarrow> string \<Rightarrow> bool \<Rightarrow> Task list" where
  "filterCurrentTasks tasks query isId =
     (if isId then filter (\<lambda>t. task_id t = query) tasks
      else
        let keywords = keywordsOf query
        in if length keywords = 0 then tasks
           else filter (\<lambda>t. list_all (keywordMatches t) keywords) tasks)"

text \<open>
  Lines 841-857: \<open>taskMap\<close> is a \<open>Map\<close> from identifier to task, kept here as an
  association list in insertion order; \<open>AList.update\<close> is \<open>Map.prototype.set\<close>.
\<close>

definition mergeResults :: "Task list \<Rightarrow> Task list \<Rightarrow> Task list" where
  "mergeResults filteredCurrentTasks memoryTasks =
     (let taskMap = foldl (\<lambda>m t. AList.update (task_id t) t m) [] filteredCurrentTasks;
          taskMap' =
            foldl (\<lambda>m t. if map_of m (task_id t) = None then AList.update (task_id t) t m else m)
              taskMap memoryTasks
      in map snd taskMap')"

text \<open>Lines 860-872: the comparison function given to \<open>sort\<close>.\<close>

definition compareTasks :: "Task \<Rightarrow> Task \<Rightarrow> int" where
  "compareTasks a b =
     (case (completedAt a, completedAt b) of
        (Some ca, Some cb) \<Rightarrow> cb - ca
      | (Some ca, None) \<Rightarrow> - 1
      | (None, Some cb) \<Rightarrow> 1
      | (None, None) \<Rightarrow> updatedAt b - updatedAt a)"

text \<open>
  \<open>Array.prototype.sort\<close> is stable; it is modelled by a stable insertion sort, which
  for a consistent comparison function gives the one stable result.
\<close>

fun insertBy :: "('a \<Rightarrow> 'a \<Rightarrow> int) \<Rightarrow> 'a \<Rightarrow> 'a list \<Rightarrow> 'a list" where
  "insertBy cmp x [] = [x]"
| "insertBy cmp x (y # ys) = (if cmp x y \<le> 0 then x # y # ys else y # insertBy cmp x ys)"

definition sortBy :: "('a \<Rightarrow> 'a \<Rightarrow> int) \<Rightarrow> 'a list \<Rightarrow> 'a list" where
  "sortBy cmp xs = foldr (insertBy cmp) xs []"

text \<open>\<open>Array.prototype.slice(start, end)\<close> with integer arguments.\<close>

definition slice :: "'a list \<Rightarrow> int \<Rightarrow> int \<Rightarrow> 'a list" where
  "slice xs start stop =
     (let len = int (length xs);
          k = (if start < 0 then max (len + start) 0 else min start len);
          final = (if stop < 0 then max (len + stop) 0 else min stop len)
      in take (nat (final - k)) (drop (nat k) xs))"

record Pagination =
  currentPage :: int
  totalPages :: int
  totalResults :: int
  hasMore :: bool

record SearchResult =
  tasks :: "Task list"
  pagination :: Pagination

text \<open>
  \<open>Math.ceil(totalResults / pageSize)\<close> on integers, for a \<open>pageSize\<close> other than
  zero (the tool's schema admits positive sizes only; a zero size would give
  \<open>Infinity\<close> or \<open>NaN\<close>, which this integer model does not represent).
\<close>

definition ceilDiv :: "int \<Rightarrow> int \<Rightarrow> int" where
  "ceilDiv a b = - ((- a) div b)"

text \<open>Lines 874-891; \<open>totalPages || 1\<close> is 1 when \<open>totalPages\<close> is 0.\<close>

definition paginate :: "Task list \<Rightarrow> int \<Rightarrow> int \<Rightarrow> SearchResult" where
  "paginate allTasks page pageSize =
     (let totalResults' = int (length allTasks);
          totalPages' = ceilDiv totalResults' pageSize;
          safePage = max 1 (min page (if totalPages' = 0 then 1 else totalPages'));
          startIndex = (safePage - 1) * pageSize;
          endIndex = min (startIndex + pageSize) totalResults';
          paginatedTasks = slice allTasks startIndex endIndex
      in \<lparr> tasks = paginatedTasks,
           pagination =
             \<lparr> currentPage = safePage,
               totalPages = (if totalPages' = 0 then 1 else totalPages'),
               totalResults = totalResults',
               hasMore = (safePage < totalPages') \<rparr> \<rparr>)"

text \<open>
  Lines 746-836 collect \<open>memoryTasks\<close> from the archive documents that an external
  text-search command selects; \<open>matchedFiles\<close> is the parsed content of those
  documents in the order they are read. Each is filtered with the same test as the
  current tasks.
\<close>

definition memoryTasksOf :: "Task list list \<Rightarrow> string \<Rightarrow> bool \<Rightarrow> Task list" where
  "memoryTasksOf matchedFiles query isId =
     concat (map (\<lambda>fileTasks. filterCurrentTasks fileTasks query isId) matchedFiles)"

definition combinedResults :: "Task list \<Rightarrow> Task list list \<Rightarrow> string \<Rightarrow> bool \<Rightarrow> Task list" where
  "combinedResults currentTasks matchedFiles query isId =
     sortBy compareTasks
       (mergeResults (filterCurrentTasks currentTasks query isId)
          (memoryTasksOf matchedFiles query isId))"

definition searchTasksWithCommand ::
  "Task list \<Rightarrow> Task list list \<Rightarrow> string \<Rightarrow> bool \<Rightarrow> int \<Rightarrow> int \<Rightarrow> SearchResult" where
  "searchTasksWithCommand currentTasks matchedFiles query isId page pageSize =
     paginate (combinedResults currentTasks matchedFiles query isId) page pageSize"

section \<open>Keyword search as the specification words it\<close>









section \<open>Concrete stores and batches\<close>

text \<open>
  Small inputs on which the theorems below are instantiated: a stored task given by
  identifier, name, status and dependency identifiers, a spec given by name and
  dependency list, and an identifier generator.
\<close>

definition exampleTask :: "string \<Rightarrow> string \<Rightarrow> TaskStatus \<Rightarrow> string list \<Rightarrow> Task" where
  "exampleTask i n st deps =
     \<lparr> task_id = i, name = n, description = ''about '' @ n, notes_task = None, status = st,
       dependencies = map (\<lambda>d. \<lparr> taskId = d \<rparr>) deps, createdAt = 100, updatedAt = 200,
       completedAt = (if st = COMPLETED then Some 300 else None), summary = None,
       relatedFiles = None, analysisResult = None, implementationGuide = None,
       verificationCriteria = None \<rparr>"

definition exampleSpec :: "string \<Rightarrow> string list option \<Rightarrow> TaskData" where
  "exampleSpec n deps =
     \<lparr> td_name = n, td_description = ''plan for '' @ n, td_notes = None,
       td_dependencies = deps, td_relatedFiles = None,
       td_implementationGuide = Some ''steps'', td_verificationCriteria = None \<rparr>"

definition exampleUuid :: "nat \<Rightarrow> string" where
  "exampleUuid k =
     (if k = 0 then ''00000000-0000-4000-8000-000000000000''
      else if k = 1 then ''00000000-0000-4000-8000-000000000001''
      else ''00000000-0000-4000-8000-000000000002'')"

text \<open>Twelve pending tasks with identifiers a to l.\<close>

definition exampleStore12 :: "Task list" where
  "exampleStore12 = map (\<lambda>c. exampleTask [c] (''task '' @ [c]) PENDING []) ''abcdefghijkl''"

section \<open>Facts about the helpers\<close>

text \<open>The definitions unfolded when an operation is run on a concrete input.\<close>

lemmas example_defs = exampleTask_def exampleSpec_def exampleUuid_def
lemmas batch_defs = batchCreateOrUpdateTasks_def materializeAll_def materialize_def
  newTaskOf_def updatedTaskOf_def initialTasksToKeep_def initialNameToIdMap_def
  matches_uuid_def hasDependencies_def dependencyNames_def Let_def

lemma findIndex_None_iff: "findIndex P xs = None \<longleftrightarrow> (\<forall>x\<in>set xs. \<not> P x)"
  by (induction xs) auto

lemma findIndex_Some:
  "findIndex P xs = Some k \<Longrightarrow> k < length xs \<and> P (xs ! k) \<and> (\<forall>j<k. \<not> P (xs ! j))"
proof (induction xs arbitrary: k)
  case Nil
  then show ?case by simp
next
  case (Cons x xs)
  show ?case
  proof (cases "P x")
    case True
    with Cons.prems show ?thesis by simp
  next
    case False
    with Cons.prems obtain k' where k': "findIndex P xs = Some k'" "k = Suc k'"
      by auto
    from Cons.IH[OF k'(1)] False k'(2) show ?thesis
      by (auto simp: nth_Cons split: nat.splits)
  qed
qed

lemma findIndex_exists: "x \<in> set xs \<Longrightarrow> P x \<Longrightarrow> \<exists>k. findIndex P xs = Some k"
  using findIndex_None_iff[of P xs] by (cases "findIndex P xs") auto

lemma find_findIndex: "find P xs = map_option (\<lambda>k. xs ! k) (findIndex P xs)"
  by (induction xs) (auto simp: option.map_comp comp_def)

lemma findIndex_distinct:
  assumes "distinct (map f xs)" "t \<in> set xs"
  shows "\<exists>k. findIndex (\<lambda>x. f x = f t) xs = Some k \<and> k < length xs \<and> xs ! k = t"
proof -
  from findIndex_exists[of t xs "\<lambda>x. f x = f t"] assms(2)
  obtain k where k: "findIndex (\<lambda>x. f x = f t) xs = Some k" by auto
  from findIndex_Some[OF k] have kl: "k < length xs" and fk: "f (xs ! k) = f t" by auto
  have "inj_on f (set xs)" using assms(1) by (simp add: distinct_map)
  moreover have "xs ! k \<in> set xs" using kl by simp
  ultimately have "xs ! k = t" using fk assms(2) by (auto dest: inj_onD)
  with k kl show ?thesis by blast
qed


lemma findIndex_first:
  "f t \<notin> f ` set pre \<Longrightarrow> findIndex (\<lambda>x. f x = f t) (pre @ t # post) = Some (length pre)"
  by (induction pre) auto

section \<open>Lemmas: the three outcomes of one loop step\<close>

lemma materialize_outcome:
  assumes "st' = materialize gen now existingTasks updateMode gar st taskData"
  shows
   "(updateMode = selective_mode \<and> st' = st \<and>
       (\<exists>v. taskNameToIdMap st (td_name taskData) = Some v \<and>
          (findIndex (\<lambda>t. task_id t = v) existingTasks = None \<or>
           (\<exists>k. findIndex (\<lambda>t. task_id t = v) existingTasks = Some k \<and>
                status (existingTasks ! k) = COMPLETED))))
    \<or> (updateMode = selective_mode \<and>
        (\<exists>v k. taskNameToIdMap st (td_name taskData) = Some v \<and>
           findIndex (\<lambda>t. task_id t = v) existingTasks = Some k \<and>
           status (existingTasks ! k) \<noteq> COMPLETED \<and>
           st' = st \<lparr> newTasks := newTasks st @ [updatedTaskOf now gar (existingTasks ! k) taskData],
                      tasksToKeep := filter (\<lambda>t. task_id t \<noteq> v) (tasksToKeep st) \<rparr>))
    \<or> ((updateMode = selective_mode \<longrightarrow> taskNameToIdMap st (td_name taskData) = None) \<and>
        st' = st \<lparr> uuid_calls := Suc (uuid_calls st),
                   taskNameToIdMap := (taskNameToIdMap st)(td_name taskData \<mapsto> gen (uuid_calls st)),
                   newTasks := newTasks st @ [newTaskOf (gen (uuid_calls st)) now gar taskData] \<rparr>)"
  using assms unfolding materialize_def
  by (auto simp: Let_def split: option.splits)

lemma materialize_cases:
  fixes st :: BatchState
  obtains (skip) w where "updateMode = selective_mode"
      "materialize gen now existingTasks updateMode gar st s = st"
      "taskNameToIdMap st (td_name s) = Some w"
      "\<not> (\<exists>k. findIndex (\<lambda>x. task_id x = w) existingTasks = Some k \<and>
              status (existingTasks ! k) \<noteq> COMPLETED)"
  | (update) w k where "updateMode = selective_mode"
      "taskNameToIdMap st (td_name s) = Some w"
      "findIndex (\<lambda>x. task_id x = w) existingTasks = Some k"
      "status (existingTasks ! k) \<noteq> COMPLETED"
      "materialize gen now existingTasks updateMode gar st s
         = st \<lparr> newTasks := newTasks st @ [updatedTaskOf now gar (existingTasks ! k) s],
                tasksToKeep := filter (\<lambda>t. task_id t \<noteq> w) (tasksToKeep st) \<rparr>"
  | (create) "updateMode = selective_mode \<longrightarrow> taskNameToIdMap st (td_name s) = None"
      "materialize gen now existingTasks updateMode gar st s
         = st \<lparr> uuid_calls := Suc (uuid_calls st),
                taskNameToIdMap := (taskNameToIdMap st)(td_name s \<mapsto> gen (uuid_calls st)),
                newTasks := newTasks st @ [newTaskOf (gen (uuid_calls st)) now gar s] \<rparr>"
proof -
  note o = materialize_outcome[OF refl, where gen=gen and now=now and existingTasks=existingTasks
      and updateMode=updateMode and gar=gar and st=st and taskData=s]
  from o show thesis
  proof (elim disjE conjE exE)
    fix v
    assume "updateMode = selective_mode"
      "materialize gen now existingTasks updateMode gar st s = st"
      "taskNameToIdMap st (td_name s) = Some v"
      "findIndex (\<lambda>t. task_id t = v) existingTasks = None"
    then show thesis using skip[of v] by simp
  next
    fix v k
    assume "updateMode = selective_mode"
      "materialize gen now existingTasks updateMode gar st s = st"
      "taskNameToIdMap st (td_name s) = Some v"
      "findIndex (\<lambda>t. task_id t = v) existingTasks = Some k"
      "status (existingTasks ! k) = COMPLETED"
    then show thesis using skip[of v] by simp
  next
    fix v k
    assume "updateMode = selective_mode"
      "taskNameToIdMap st (td_name s) = Some v"
      "findIndex (\<lambda>t. task_id t = v) existingTasks = Some k"
      "status (existingTasks ! k) \<noteq> COMPLETED"
      "materialize gen now existingTasks updateMode gar st s
         = st \<lparr> newTasks := newTasks st @ [updatedTaskOf now gar (existingTasks ! k) s],
                tasksToKeep := filter (\<lambda>t. task_id t \<noteq> v) (tasksToKeep st) \<rparr>"
    then show thesis using update[of v k] by simp
  next
    assume "updateMode = selective_mode \<longrightarrow> taskNameToIdMap st (td_name s) = None"
      "materialize gen now existingTasks updateMode gar st s
         = st \<lparr> uuid_calls := Suc (uuid_calls st),
                taskNameToIdMap := (taskNameToIdMap st)(td_name s \<mapsto> gen (uuid_calls st)),
                newTasks := newTasks st @ [newTaskOf (gen (uuid_calls st)) now gar s] \<rparr>"
    then show thesis using create by simp
  qed
qed

lemma updatedTaskOf_fields:
  "task_id (updatedTaskOf now gar t s) = task_id t"
  "createdAt (updatedTaskOf now gar t s) = createdAt t"
  "status (updatedTaskOf now gar t s) = status t"
  "dependencies (updatedTaskOf now gar t s) = dependencies t"
  "completedAt (updatedTaskOf now gar t s) = completedAt t"
  "summary (updatedTaskOf now gar t s) = summary t"
  "name (updatedTaskOf now gar t s) = td_name s"
  "description (updatedTaskOf now gar t s) = td_description s"
  "notes_task (updatedTaskOf now gar t s) = td_notes s"
  "implementationGuide (updatedTaskOf now gar t s) = td_implementationGuide s"
  "verificationCriteria (updatedTaskOf now gar t s) = td_verificationCriteria s"
  "analysisResult (updatedTaskOf now gar t s) = gar"
  "updatedAt (updatedTaskOf now gar t s) = now"
  "relatedFiles (updatedTaskOf now gar t s) =
     (case td_relatedFiles s of None \<Rightarrow> relatedFiles t | Some files \<Rightarrow> Some files)"
  by (simp_all add: updatedTaskOf_def Let_def split: option.splits)

lemma newTaskOf_fields:
  "task_id (newTaskOf i now gar s) = i"
  "name (newTaskOf i now gar s) = td_name s"
  "status (newTaskOf i now gar s) = PENDING"
  "dependencies (newTaskOf i now gar s) = []"
  by (simp_all add: newTaskOf_def)


section \<open>Lemmas: the dependency fix-up pass\<close>

lemma resolveDependencies_ids_cong:
  "set (map task_id xs) = set (map task_id ys) \<Longrightarrow>
   resolveDependencies m xs deps = resolveDependencies m ys deps"
proof (induction deps)
  case Nil
  show ?case by simp
next
  case (Cons d deps)
  have "list_ex (\<lambda>t. task_id t = d) xs = (d \<in> set (map task_id xs))"
       "list_ex (\<lambda>t. task_id t = d) ys = (d \<in> set (map task_id ys))"
    by (auto simp: list_ex_iff)
  then have "list_ex (\<lambda>t. task_id t = d) xs = list_ex (\<lambda>t. task_id t = d) ys"
    using Cons.prems by simp
  with Cons show ?case by (simp split: option.splits)
qed

lemma resolveDependencies_sound:
  "d \<in> set (resolveDependencies m allTasks deps) \<Longrightarrow>
   taskId d \<in> task_id ` set allTasks \<or> (\<exists>n \<in> set deps. m n = Some (taskId d))"
  by (induction deps) (auto simp: list_ex_iff split: if_splits option.splits)

lemma map_task_id_update_dependencies:
  "map task_id (new [i := (new ! i) \<lparr> dependencies := ds \<rparr>]) = map task_id new"
  by (induction new arbitrary: i) (auto split: nat.splits)

lemma fixupDependencies_Inr:
  "fixupDependencies m keep i rest new = Inr new' \<Longrightarrow>
   length new' = length new \<and>
   (\<forall>k<length new. new' ! k =
      (if i \<le> k \<and> k - i < length rest \<and> hasDependencies (rest ! (k - i))
       then (new ! k) \<lparr> dependencies :=
              resolveDependencies m (keep @ new) (dependencyNames (rest ! (k - i))) \<rparr>
       else new ! k))"
proof (induction rest arbitrary: i new)
  case Nil
  then show ?case by simp
next
  case (Cons s rest)
  show ?case
  proof (cases "hasDependencies s")
    case False
    with Cons.prems have "fixupDependencies m keep (Suc i) rest new = Inr new'" by simp
    from Cons.IH[OF this] have len: "length new' = length new"
      and ih: "\<forall>k<length new. new' ! k =
        (if Suc i \<le> k \<and> k - Suc i < length rest \<and> hasDependencies (rest ! (k - Suc i))
         then (new ! k) \<lparr> dependencies :=
                resolveDependencies m (keep @ new) (dependencyNames (rest ! (k - Suc i))) \<rparr>
         else new ! k)" by auto
    have "new' ! k =
        (if i \<le> k \<and> k - i < length (s # rest) \<and> hasDependencies ((s # rest) ! (k - i))
         then (new ! k) \<lparr> dependencies :=
                resolveDependencies m (keep @ new) (dependencyNames ((s # rest) ! (k - i))) \<rparr>
         else new ! k)" if "k < length new" for k
    proof (cases "k \<le> i")
      case True
      then show ?thesis using ih that False by (cases "k = i") auto
    next
      case F: False
      then obtain d where d: "k - i = Suc d" "k - Suc i = d" by (cases "k - i") auto
      with F ih that show ?thesis by auto
    qed
    with len show ?thesis by blast
  next
    case True
    let ?r = "resolveDependencies m (keep @ new) (dependencyNames s)"
    let ?new1 = "new [i := (new ! i) \<lparr> dependencies := ?r \<rparr>]"
    from Cons.prems True have il: "i < length new"
      by (auto simp: Let_def split: if_splits)
    with Cons.prems True have "fixupDependencies m keep (Suc i) rest ?new1 = Inr new'"
      by (simp add: Let_def)
    from Cons.IH[OF this] have len: "length new' = length new"
      and ih: "\<forall>k<length new. new' ! k =
        (if Suc i \<le> k \<and> k - Suc i < length rest \<and> hasDependencies (rest ! (k - Suc i))
         then (?new1 ! k) \<lparr> dependencies :=
                resolveDependencies m (keep @ ?new1) (dependencyNames (rest ! (k - Suc i))) \<rparr>
         else ?new1 ! k)" by auto
    have ids: "set (map task_id (keep @ ?new1)) = set (map task_id (keep @ new))"
      using map_task_id_update_dependencies[of new i ?r] by simp
    have res: "resolveDependencies m (keep @ ?new1) deps = resolveDependencies m (keep @ new) deps"
      for deps by (rule resolveDependencies_ids_cong[OF ids])
    have "new' ! k =
        (if i \<le> k \<and> k - i < length (s # rest) \<and> hasDependencies ((s # rest) ! (k - i))
         then (new ! k) \<lparr> dependencies :=
                resolveDependencies m (keep @ new) (dependencyNames ((s # rest) ! (k - i))) \<rparr>
         else new ! k)" if "k < length new" for k
    proof (cases "k \<le> i")
      case T: True
      then show ?thesis using ih that True il by (cases "k = i") auto
    next
      case F: False
      then obtain d where d: "k - i = Suc d" "k - Suc i = d" by (cases "k - i") auto
      with F ih that res show ?thesis by auto
    qed
    with len show ?thesis by blast
  qed
qed

lemma fixupDependencies_length:
  "fixupDependencies m keep i rest new = Inr new' \<Longrightarrow> length new' = length new"
  using fixupDependencies_Inr by blast

lemma fixupDependencies_Inl_iff:
  "fixupDependencies m keep i rest new = Inl TypeError \<longleftrightarrow>
   (\<exists>k<length rest. hasDependencies (rest ! k) \<and> length new \<le> i + k)"
proof (induction rest arbitrary: i new)
  case Nil
  show ?case by simp
next
  case (Cons s rest)
  have ex_Suc: "(\<exists>k<Suc n. P k) \<longleftrightarrow> P 0 \<or> (\<exists>k<n. P (Suc k))" for P n
    by (auto simp: less_Suc_eq_0_disj)
  show ?case
  proof (cases "hasDependencies s")
    case False
    then show ?thesis using Cons.IH[of "Suc i" new] by (simp add: ex_Suc)
  next
    case True
    show ?thesis
    proof (cases "i < length new")
      case T: True
      let ?new1 = "new [i := (new ! i) \<lparr> dependencies :=
          resolveDependencies m (keep @ new) (dependencyNames s) \<rparr>]"
      from True T have "fixupDependencies m keep i (s # rest) new
          = fixupDependencies m keep (Suc i) rest ?new1" by (simp add: Let_def)
      then show ?thesis using Cons.IH[of "Suc i" ?new1] T by (simp add: ex_Suc)
    next
      case F: False
      with True show ?thesis by (auto simp: Let_def)
    qed
  qed
qed

lemma fixupDependencies_returns:
  assumes "\<forall>k<length rest. hasDependencies (rest ! k) \<longrightarrow> i + k < length new"
  shows "\<exists>new'. fixupDependencies m keep i rest new = Inr new'"
proof (cases "fixupDependencies m keep i rest new")
  case (Inl e)
  then have "fixupDependencies m keep i rest new = Inl TypeError" by (cases e) simp
  then obtain k where "k < length rest" "hasDependencies (rest ! k)" "length new \<le> i + k"
    unfolding fixupDependencies_Inl_iff by blast
  with assms show ?thesis by fastforce
next
  case (Inr new')
  then show ?thesis by blast
qed

section \<open>Lemmas: the name to identifier map\<close>

lemma recordNames_Nil [simp]: "recordNames [] m = m"
  by (simp add: recordNames_def)

lemma recordNames_Cons [simp]:
  "recordNames (t # ts) m = recordNames ts (m(name t \<mapsto> task_id t))"
  by (simp add: recordNames_def)

lemma recordNames_Some:
  "recordNames ts m n = Some v \<Longrightarrow>
   m n = Some v \<or> (\<exists>t\<in>set ts. name t = n \<and> task_id t = v)"
proof (induction ts arbitrary: m)
  case Nil
  then show ?case by simp
next
  case (Cons t ts)
  from Cons.prems have "recordNames ts (m(name t \<mapsto> task_id t)) n = Some v" by simp
  from Cons.IH[OF this]
  consider "(m(name t \<mapsto> task_id t)) n = Some v" | "\<exists>t'\<in>set ts. name t' = n \<and> task_id t' = v"
    by blast
  then show ?case
  proof cases
    case 1
    then show ?thesis by (cases "name t = n") simp_all
  next
    case 2
    then show ?thesis by auto
  qed
qed

lemma recordNames_agree:
  "\<forall>t\<in>set ts. name t = n \<longrightarrow> task_id t = v \<Longrightarrow>
   m n = Some v \<or> n \<in> name ` set ts \<Longrightarrow>
   recordNames ts m n = Some v"
proof (induction ts arbitrary: m)
  case Nil
  then show ?case by simp
next
  case (Cons t ts)
  have 1: "\<forall>t'\<in>set ts. name t' = n \<longrightarrow> task_id t' = v" using Cons.prems(1) by simp
  have 2: "(m(name t \<mapsto> task_id t)) n = Some v \<or> n \<in> name ` set ts"
  proof (cases "name t = n")
    case True
    with Cons.prems(1) show ?thesis by simp
  next
    case False
    with Cons.prems(2) show ?thesis by auto
  qed
  have "recordNames ts (m(name t \<mapsto> task_id t)) n = Some v"
    using 1 2 by (rule Cons.IH)
  then show ?case by simp
qed

lemma recordNames_other: "n \<notin> name ` set ts \<Longrightarrow> recordNames ts m n = m n"
proof (induction ts arbitrary: m)
  case Nil
  then show ?case by simp
next
  case (Cons t ts)
  then show ?case by simp
qed

lemma initialTasksToKeep_subset:
  "set (initialTasksToKeep existingTasks taskDataList updateMode) \<subseteq> set existingTasks"
  by (cases updateMode) (auto simp: initialTasksToKeep_def)

lemma recordNames_append: "recordNames (xs @ ys) m = recordNames ys (recordNames xs m)"
  by (simp add: recordNames_def)

lemma recordNames_last:
  assumes "name t \<notin> name ` set post"
  shows "recordNames (pre @ t # post) m (name t) = Some (task_id t)"
proof -
  have "recordNames (pre @ t # post) m
      = recordNames post ((recordNames pre m)(name t \<mapsto> task_id t))"
    by (simp add: recordNames_append)
  then show ?thesis using recordNames_other[OF assms] by simp
qed

text \<open>
  In selective mode the name of a task that no later task of the store shares, and
  that a spec of the batch carries, is recorded with the identifier of that task.
\<close>

lemma initialNameToIdMap_resolves:
  assumes "existingTasks = pre @ t # post" and "name t \<notin> name ` set post"
    and "name t \<in> td_name ` set taskDataList"
  shows "initialNameToIdMap existingTasks
           (initialTasksToKeep existingTasks taskDataList selective_mode) selective_mode (name t)
         = Some (task_id t)"
proof -
  let ?keep = "initialTasksToKeep existingTasks taskDataList selective_mode"
  have "name t \<notin> name ` set ?keep"
    using assms(3) by (auto simp: initialTasksToKeep_def)
  then have "recordNames ?keep m (name t) = m (name t)" for m
    by (rule recordNames_other)
  moreover have "recordNames existingTasks Map.empty (name t) = Some (task_id t)"
    unfolding assms(1) by (rule recordNames_last[OF assms(2)])
  ultimately show ?thesis by (simp add: initialNameToIdMap_def)
qed

section \<open>Lemmas: what the loop pushes\<close>

lemma materialize_push:
  "\<exists>P. newTasks (materialize gen now existingTasks updateMode gar st s) = newTasks st @ P \<and>
       (P = [] \<or> (\<exists>t. P = [t] \<and> name t = td_name s))"
  using materialize_outcome[OF refl, where gen=gen and now=now and existingTasks=existingTasks and updateMode=updateMode and gar=gar and st=st and taskData=s]
  by (auto simp: updatedTaskOf_fields newTaskOf_fields)

lemma foldl_materialize_pushes:
  "\<exists>P. newTasks (foldl (materialize gen now existingTasks updateMode gar) st xs)
         = newTasks st @ P \<and>
       length P \<le> length xs \<and>
       (\<forall>k<length P. name (P ! k) \<in> td_name ` set (drop k xs))"
proof (induction xs arbitrary: st)
  case Nil
  show ?case by simp
next
  case (Cons s xs)
  let ?f = "materialize gen now existingTasks updateMode gar"
  obtain P1 where P1: "newTasks (?f st s) = newTasks st @ P1"
    "P1 = [] \<or> (\<exists>t. P1 = [t] \<and> name t = td_name s)"
    using materialize_push by blast
  obtain P2 where P2: "newTasks (foldl ?f (?f st s) xs) = newTasks (?f st s) @ P2"
    "length P2 \<le> length xs" "\<forall>k<length P2. name (P2 ! k) \<in> td_name ` set (drop k xs)"
    using Cons.IH[of "?f st s"] by blast
  have eq: "newTasks (foldl ?f st (s # xs)) = newTasks st @ (P1 @ P2)"
    using P1(1) P2(1) by simp
  have len: "length (P1 @ P2) \<le> length (s # xs)"
    using P1(2) P2(2) by auto
  have names: "name ((P1 @ P2) ! k) \<in> td_name ` set (drop k (s # xs))" if "k < length (P1 @ P2)" for k
  proof (cases "P1 = []")
    case True
    with that P2(3) have "name (P2 ! k) \<in> td_name ` set (drop k xs)" by simp
    moreover have "set (drop k xs) \<subseteq> set (drop k (s # xs))"
      by (cases k) (auto dest: in_set_dropD simp: set_drop_subset_set_drop)
    ultimately show ?thesis using True by auto
  next
    case False
    with P1(2) obtain t where t: "P1 = [t]" "name t = td_name s" by auto
    show ?thesis
    proof (cases k)
      case 0
      with t show ?thesis by simp
    next
      case (Suc k')
      with that t P2(3) have "name (P2 ! k') \<in> td_name ` set (drop k' xs)" by simp
      with Suc t show ?thesis by simp
    qed
  qed
  from eq len names show ?case by blast
qed


section \<open>Lemmas: selective mode: a recorded name keeps its identifier\<close>

lemma materialize_keeps_entry:
  assumes "taskNameToIdMap st n = Some v"
  shows "taskNameToIdMap (materialize gen now existingTasks selective_mode gar st s) n = Some v"
proof (cases rule: materialize_cases[of selective_mode gen now existingTasks gar st s])
  case (skip w)
  with assms show ?thesis by simp
next
  case (update w k)
  with assms show ?thesis by simp
next
  case create
  with assms have "td_name s \<noteq> n" by auto
  with create(2) assms show ?thesis by simp
qed

lemma foldl_materialize_keeps_entry:
  "taskNameToIdMap st n = Some v \<Longrightarrow>
   taskNameToIdMap (foldl (materialize gen now existingTasks selective_mode gar) st xs) n = Some v"
proof (induction xs arbitrary: st)
  case Nil
  then show ?case by simp
next
  case (Cons s xs)
  have "taskNameToIdMap (materialize gen now existingTasks selective_mode gar st s) n = Some v"
    by (rule materialize_keeps_entry[OF Cons.prems])
  from Cons.IH[OF this] show ?case by simp
qed

lemma materialize_completed_skip:
  assumes "taskNameToIdMap st (td_name s) = Some (task_id t)"
    and "existingTasks = pre @ t # post" and "task_id t \<notin> task_id ` set pre"
    and "status t = COMPLETED"
  shows "materialize gen now existingTasks selective_mode gar st s = st"
proof -
  have k: "findIndex (\<lambda>x. task_id x = task_id t) existingTasks = Some (length pre)"
    unfolding assms(2) by (rule findIndex_first[OF assms(3)])
  have "existingTasks ! length pre = t" unfolding assms(2) by simp
  then show ?thesis unfolding materialize_def using assms(1,4) k by simp
qed


lemma materializeAll_split:
  assumes "j < length taskDataList"
  shows "\<exists>st1. materializeAll gen now existingTasks taskDataList updateMode gar
           = foldl (materialize gen now existingTasks updateMode gar)
               (materialize gen now existingTasks updateMode gar st1 (taskDataList ! j))
               (drop (Suc j) taskDataList) \<and>
         st1 = foldl (materialize gen now existingTasks updateMode gar)
                 \<lparr> tasksToKeep = initialTasksToKeep existingTasks taskDataList updateMode,
                   taskNameToIdMap = initialNameToIdMap existingTasks
                     (initialTasksToKeep existingTasks taskDataList updateMode) updateMode,
                   newTasks = [], uuid_calls = 0 \<rparr>
                 (take j taskDataList)"
proof -
  have "taskDataList = take j taskDataList @ (taskDataList ! j) # drop (Suc j) taskDataList"
    using assms by (rule id_take_nth_drop)
  then have "foldl f a taskDataList
      = foldl f (f (foldl f a (take j taskDataList)) (taskDataList ! j)) (drop (Suc j) taskDataList)"
    for f :: "BatchState \<Rightarrow> TaskData \<Rightarrow> BatchState" and a
    by (metis foldl_Cons foldl_append)
  then show ?thesis unfolding materializeAll_def Let_def by blast
qed

text \<open>
  The state in which the loop reaches the spec at position \<open>j\<close>, when that spec
  carries the name of the task \<open>t\<close>, the last of the store with its name: the name
  is still recorded with the identifier of \<open>t\<close>.
\<close>

lemma selective_reaches_spec:
  assumes "existingTasks = pre @ t # post" and "name t \<notin> name ` set post"
    and "j < length taskDataList" and "name t = td_name (taskDataList ! j)"
  shows "\<exists>st1. materializeAll gen now existingTasks taskDataList selective_mode gar
           = foldl (materialize gen now existingTasks selective_mode gar)
               (materialize gen now existingTasks selective_mode gar st1 (taskDataList ! j))
               (drop (Suc j) taskDataList) \<and>
         taskNameToIdMap st1 (td_name (taskDataList ! j)) = Some (task_id t) \<and>
         length (newTasks st1) \<le> j"
proof -
  let ?f = "materialize gen now existingTasks selective_mode gar"
  let ?st0 = "\<lparr> tasksToKeep = initialTasksToKeep existingTasks taskDataList selective_mode,
          taskNameToIdMap = initialNameToIdMap existingTasks
            (initialTasksToKeep existingTasks taskDataList selective_mode) selective_mode,
          newTasks = [], uuid_calls = 0 \<rparr>"
  from materializeAll_split[OF assms(3), of gen now existingTasks selective_mode gar]
  have all: "materializeAll gen now existingTasks taskDataList selective_mode gar
        = foldl ?f (?f (foldl ?f ?st0 (take j taskDataList)) (taskDataList ! j))
            (drop (Suc j) taskDataList)"
    by auto
  have "taskDataList ! j \<in> set taskDataList" using assms(3) by simp
  then have "name t \<in> td_name ` set taskDataList" unfolding assms(4) by (rule imageI)
  then have "taskNameToIdMap ?st0 (name t) = Some (task_id t)"
    using initialNameToIdMap_resolves[OF assms(1,2)] by simp
  then have m: "taskNameToIdMap (foldl ?f ?st0 (take j taskDataList)) (td_name (taskDataList ! j))
      = Some (task_id t)"
    unfolding assms(4)[symmetric] by (rule foldl_materialize_keeps_entry)
  from foldl_materialize_pushes[of gen now existingTasks selective_mode gar ?st0 "take j taskDataList"]
  have "length (newTasks (foldl ?f ?st0 (take j taskDataList))) \<le> j"
    using assms(3) by auto
  with all m show ?thesis by blast
qed

lemma fixupDependencies_same_fields:
  assumes "fixupDependencies m keep i rest new = Inr new'" "k < length new"
  shows "\<exists>ds. new' ! k = (new ! k) \<lparr> dependencies := ds \<rparr>"
proof -
  from fixupDependencies_Inr[OF assms(1)] assms(2)
  have "new' ! k =
      (if i \<le> k \<and> k - i < length rest \<and> hasDependencies (rest ! (k - i))
       then (new ! k) \<lparr> dependencies :=
              resolveDependencies m (keep @ new) (dependencyNames (rest ! (k - i))) \<rparr>
       else new ! k)" by blast
  moreover have "new ! k = (new ! k) \<lparr> dependencies := dependencies (new ! k) \<rparr>" by simp
  ultimately show ?thesis by metis
qed

lemma batch_Inr_iff:
  "batchCreateOrUpdateTasks gen now existingTasks taskDataList updateMode gar = Inr (returned, written)
   \<longleftrightarrow>
   fixupDependencies
       (taskNameToIdMap (materializeAll gen now existingTasks taskDataList updateMode gar))
       (tasksToKeep (materializeAll gen now existingTasks taskDataList updateMode gar)) 0
       taskDataList
       (newTasks (materializeAll gen now existingTasks taskDataList updateMode gar)) = Inr returned \<and>
   written = tasksToKeep (materializeAll gen now existingTasks taskDataList updateMode gar) @ returned"
  unfolding batchCreateOrUpdateTasks_def Let_def by (auto split: sum.splits)

lemma batch_Inl_iff:
  "batchCreateOrUpdateTasks gen now existingTasks taskDataList updateMode gar = Inl TypeError
   \<longleftrightarrow>
   fixupDependencies
       (taskNameToIdMap (materializeAll gen now existingTasks taskDataList updateMode gar))
       (tasksToKeep (materializeAll gen now existingTasks taskDataList updateMode gar)) 0
       taskDataList
       (newTasks (materializeAll gen now existingTasks taskDataList updateMode gar)) = Inl TypeError"
  unfolding batchCreateOrUpdateTasks_def Let_def by (auto split: sum.splits)

lemma distinct_store_decomposition:
  assumes "distinct (map name existingTasks)" and "distinct (map task_id existingTasks)"
    and "t \<in> set existingTasks"
  shows "\<exists>pre post. existingTasks = pre @ t # post \<and>
           name t \<notin> name ` set post \<and> task_id t \<notin> task_id ` set pre"
proof -
  from assms(3) obtain pre post where e: "existingTasks = pre @ t # post"
    by (auto dest: split_list)
  from assms(1,2) have "name t \<notin> name ` set post" "task_id t \<notin> task_id ` set pre"
    unfolding e by auto
  with e show ?thesis by blast
qed



section \<open>Selective update of a task that is not completed\<close>




section \<open>Lemmas: which spec a pushed task was made from\<close>

lemma materialize_push_from:
  "\<exists>P. newTasks (materialize gen now existingTasks updateMode gar st s) = newTasks st @ P \<and>
       (P = [] \<or> (\<exists>x. P = [x] \<and>
          ((\<exists>base. x = updatedTaskOf now gar base s) \<or>
           (\<exists>newTaskId. x = newTaskOf newTaskId now gar s))))"
proof (cases rule: materialize_cases[of updateMode gen now existingTasks gar st s])
  case (skip w)
  then show ?thesis by simp
next
  case (update w k)
  then show ?thesis by auto
next
  case create
  then show ?thesis by auto
qed

lemma foldl_pushes_rel:
  fixes f :: "BatchState \<Rightarrow> TaskData \<Rightarrow> BatchState"
  assumes step: "\<And>st s. \<exists>P. newTasks (f st s) = newTasks st @ P \<and>
                     (P = [] \<or> (\<exists>x. P = [x] \<and> R s x))"
  shows "\<exists>P. newTasks (foldl f st xs) = newTasks st @ P \<and> length P \<le> length xs \<and>
           (\<forall>k<length P. \<exists>m. k \<le> m \<and> m < length xs \<and> R (xs ! m) (P ! k))"
proof (induction xs arbitrary: st)
  case Nil
  show ?case by simp
next
  case (Cons s xs)
  obtain P1 where P1: "newTasks (f st s) = newTasks st @ P1"
    "P1 = [] \<or> (\<exists>x. P1 = [x] \<and> R s x)"
    using step by blast
  obtain P2 where P2: "newTasks (foldl f (f st s) xs) = newTasks (f st s) @ P2"
    "length P2 \<le> length xs"
    "\<forall>k<length P2. \<exists>m. k \<le> m \<and> m < length xs \<and> R (xs ! m) (P2 ! k)"
    using Cons.IH[of "f st s"] by blast
  have eq: "newTasks (foldl f st (s # xs)) = newTasks st @ (P1 @ P2)"
    using P1(1) P2(1) by simp
  have len: "length (P1 @ P2) \<le> length (s # xs)"
    using P1(2) P2(2) by auto
  have from_spec: "\<exists>m. k \<le> m \<and> m < length (s # xs) \<and> R ((s # xs) ! m) ((P1 @ P2) ! k)"
    if "k < length (P1 @ P2)" for k
  proof (cases "P1 = []")
    case True
    with that P2(3) obtain m where "k \<le> m" "m < length xs" "R (xs ! m) (P2 ! k)" by auto
    then have "k \<le> Suc m \<and> Suc m < length (s # xs) \<and> R ((s # xs) ! Suc m) ((P1 @ P2) ! k)"
      using True by simp
    then show ?thesis by blast
  next
    case False
    with P1(2) obtain x where x: "P1 = [x]" "R s x" by auto
    show ?thesis
    proof (cases k)
      case 0
      with x have "0 \<le> (0::nat) \<and> 0 < length (s # xs) \<and> R ((s # xs) ! 0) ((P1 @ P2) ! k)"
        by simp
      with 0 show ?thesis by blast
    next
      case (Suc k')
      with that x P2(3) obtain m where "k' \<le> m" "m < length xs" "R (xs ! m) (P2 ! k')" by auto
      then have "k \<le> Suc m \<and> Suc m < length (s # xs) \<and> R ((s # xs) ! Suc m) ((P1 @ P2) ! k)"
        using Suc x by simp
      then show ?thesis by blast
    qed
  qed
  from eq len from_spec show ?case by blast
qed

lemma selective_completed_not_materialized:
  assumes "existingTasks = pre @ t # post" and "name t \<notin> name ` set post"
    and "task_id t \<notin> task_id ` set pre"
    and "j < length taskDataList" and "name t = td_name (taskDataList ! j)"
    and "status t = COMPLETED"
  shows "\<exists>P1 P2. newTasks (materializeAll gen now existingTasks taskDataList selective_mode gar)
             = P1 @ P2 \<and>
           length P1 \<le> j \<and> length P2 \<le> length taskDataList - Suc j \<and>
           (\<forall>k<length P2. \<exists>m. Suc j + k \<le> m \<and> m < length taskDataList \<and>
              ((\<exists>base. P2 ! k = updatedTaskOf now gar base (taskDataList ! m)) \<or>
               (\<exists>newTaskId. P2 ! k = newTaskOf newTaskId now gar (taskDataList ! m))))"
proof -
  let ?f = "materialize gen now existingTasks selective_mode gar"
  let ?s = "taskDataList ! j"
  let ?R = "\<lambda>s x. (\<exists>base. x = updatedTaskOf now gar base s) \<or>
                   (\<exists>newTaskId. x = newTaskOf newTaskId now gar s)"
  let ?rest = "drop (Suc j) taskDataList"
  from selective_reaches_spec[OF assms(1,2,4,5), of gen now gar]
  obtain st1 where all: "materializeAll gen now existingTasks taskDataList selective_mode gar
        = foldl ?f (?f st1 ?s) ?rest"
    and m: "taskNameToIdMap st1 (td_name ?s) = Some (task_id t)"
    and l1: "length (newTasks st1) \<le> j"
    by blast
  have skip: "?f st1 ?s = st1"
    by (rule materialize_completed_skip[OF m assms(1,3,6)])
  have "\<exists>P. newTasks (foldl ?f st1 ?rest) = newTasks st1 @ P \<and> length P \<le> length ?rest \<and>
           (\<forall>k<length P. \<exists>m. k \<le> m \<and> m < length ?rest \<and> ?R (?rest ! m) (P ! k))"
    by (rule foldl_pushes_rel) (rule materialize_push_from)
  then obtain P2 where P2: "newTasks (foldl ?f st1 ?rest) = newTasks st1 @ P2"
    "length P2 \<le> length ?rest"
    "\<forall>k<length P2. \<exists>m. k \<le> m \<and> m < length ?rest \<and> ?R (?rest ! m) (P2 ! k)"
    by blast
  have "newTasks (materializeAll gen now existingTasks taskDataList selective_mode gar)
      = newTasks st1 @ P2"
    using all skip P2(1) by simp
  moreover have "length P2 \<le> length taskDataList - Suc j" using P2(2) by simp
  moreover have "\<exists>m. Suc j + k \<le> m \<and> m < length taskDataList \<and> ?R (taskDataList ! m) (P2 ! k)"
    if "k < length P2" for k
  proof -
    from P2(3) that obtain m where mm: "k \<le> m" "m < length ?rest" "?R (?rest ! m) (P2 ! k)"
      by blast
    from mm(2) have "Suc j + m < length taskDataList" by simp
    moreover from mm(2) have "?rest ! m = taskDataList ! (Suc j + m)" by simp
    moreover have "Suc j + k \<le> Suc j + m" using mm(1) by simp
    ultimately have "Suc j + k \<le> Suc j + m \<and> Suc j + m < length taskDataList \<and>
        ?R (taskDataList ! (Suc j + m)) (P2 ! k)"
      using mm(3) by simp
    then show ?thesis by blast
  qed
  ultimately show ?thesis using l1 by blast
qed

lemma selective_completed_shorter:
  assumes "existingTasks = pre @ t # post" and "name t \<notin> name ` set post"
    and "task_id t \<notin> task_id ` set pre"
    and "j < length taskDataList" and "name t = td_name (taskDataList ! j)"
    and "status t = COMPLETED"
  shows "length (newTasks (materializeAll gen now existingTasks taskDataList selective_mode gar))
           < length taskDataList"
proof -
  from selective_completed_not_materialized[OF assms, of gen now gar]
  obtain P1 P2 where
    "newTasks (materializeAll gen now existingTasks taskDataList selective_mode gar) = P1 @ P2"
    "length P1 \<le> j" "length P2 \<le> length taskDataList - Suc j"
    by blast
  then show ?thesis using assms(4) by simp
qed

lemma selective_completed_shifted:
  assumes "existingTasks = pre @ t # post" and "name t \<notin> name ` set post"
    and "task_id t \<notin> task_id ` set pre"
    and "j < length taskDataList" and "name t = td_name (taskDataList ! j)"
    and "status t = COMPLETED"
    and "j \<le> i"
    and "i < length (newTasks (materializeAll gen now existingTasks taskDataList selective_mode gar))"
  shows "\<exists>k. i < k \<and> k < length taskDataList \<and>
           ((\<exists>base. newTasks (materializeAll gen now existingTasks taskDataList selective_mode gar) ! i
                      = updatedTaskOf now gar base (taskDataList ! k)) \<or>
            (\<exists>newTaskId. newTasks (materializeAll gen now existingTasks taskDataList selective_mode gar) ! i
                      = newTaskOf newTaskId now gar (taskDataList ! k)))"
proof -
  let ?new = "newTasks (materializeAll gen now existingTasks taskDataList selective_mode gar)"
  from selective_completed_not_materialized[OF assms(1-6), of gen now gar]
  obtain P1 P2 where P: "?new = P1 @ P2" "length P1 \<le> j"
    "\<forall>k<length P2. \<exists>m. Suc j + k \<le> m \<and> m < length taskDataList \<and>
        ((\<exists>base. P2 ! k = updatedTaskOf now gar base (taskDataList ! m)) \<or>
         (\<exists>newTaskId. P2 ! k = newTaskOf newTaskId now gar (taskDataList ! m)))"
    by blast
  let ?k = "i - length P1"
  have k: "?k < length P2" "?new ! i = P2 ! ?k"
    using assms(7,8) P(1,2) by (auto simp: nth_append)
  from P(3) k(1) obtain m where m: "Suc j + ?k \<le> m" "m < length taskDataList"
    "(\<exists>base. P2 ! ?k = updatedTaskOf now gar base (taskDataList ! m)) \<or>
     (\<exists>newTaskId. P2 ! ?k = newTaskOf newTaskId now gar (taskDataList ! m))"
    by blast
  have "i < m" using m(1) P(2) assms(7) by simp
  with m(2,3) k(2) show ?thesis by auto
qed

lemma made_from_name:
  "(\<exists>base. x = updatedTaskOf now gar base s) \<or> (\<exists>newTaskId. x = newTaskOf newTaskId now gar s)
   \<Longrightarrow> name x = td_name s"
  by (auto simp: updatedTaskOf_fields newTaskOf_fields)

lemma fixupDependencies_total:
  assumes "\<forall>i<length taskDataList. hasDependencies (taskDataList ! i) \<longrightarrow> i < length new"
  shows "\<exists>returned. fixupDependencies m keep 0 taskDataList new = Inr returned \<and>
           length returned = length new \<and>
           (\<forall>i<length returned. returned ! i =
              (if i < length taskDataList \<and> hasDependencies (taskDataList ! i)
               then (new ! i) \<lparr> dependencies :=
                      resolveDependencies m (keep @ new) (dependencyNames (taskDataList ! i)) \<rparr>
               else new ! i))"
proof -
  have "\<forall>k<length taskDataList. hasDependencies (taskDataList ! k) \<longrightarrow> 0 + k < length new"
    using assms by simp
  from fixupDependencies_returns[OF this, of m keep]
  obtain returned where fx: "fixupDependencies m keep 0 taskDataList new = Inr returned"
    by blast
  from fixupDependencies_Inr[OF fx] have len: "length returned = length new"
    and nth: "\<forall>k<length new. returned ! k =
        (if 0 \<le> k \<and> k - 0 < length taskDataList \<and> hasDependencies (taskDataList ! (k - 0))
         then (new ! k) \<lparr> dependencies :=
                resolveDependencies m (keep @ new) (dependencyNames (taskDataList ! (k - 0))) \<rparr>
         else new ! k)"
    by blast+
  from nth len have "\<forall>i<length returned. returned ! i =
              (if i < length taskDataList \<and> hasDependencies (taskDataList ! i)
               then (new ! i) \<lparr> dependencies :=
                      resolveDependencies m (keep @ new) (dependencyNames (taskDataList ! i)) \<rparr>
               else new ! i)"
    by simp
  with fx len show ?thesis by blast
qed

section \<open>The fix-up pass indexes the new tasks by spec position\<close>

text \<open>
  Claim C3, as amended. The fix-up loop reads \<open>newTasks[i]\<close> for the spec at position
  \<open>i\<close> of \<open>taskDataList\<close>. Take a selective batch in which the spec at position \<open>j\<close>
  carries the name of an existing COMPLETED task that the name resolves to: no later
  task of the store has that name and no earlier task has its identifier. Then
  \<^item> nothing is pushed for that spec, so \<open>newTasks\<close> is shorter than \<open>taskDataList\<close>;
  \<^item> from position \<open>j\<close> on, the task at position \<open>i\<close> of \<open>newTasks\<close> was made
    from a spec at a later position than \<open>i\<close>, and has another name than the spec at
    position \<open>i\<close> when the spec names are distinct;
  \<^item> when a spec at a position not below the length of \<open>newTasks\<close> lists
    dependencies, the assignment to \<open>newTask.dependencies\<close> throws a TypeError and the
    batch does not return;
  \<^item> otherwise the batch returns, and the task at position \<open>i\<close> of the result is the
    one at position \<open>i\<close> of \<open>newTasks\<close>, holding the dependencies resolved for the
    spec at position \<open>i\<close> whenever that spec lists any: from position \<open>j\<close> on they
    are on a task made from a later spec.
\<close>

theorem C3_fixup_indexes_by_spec_position:
  assumes "existingTasks = pre @ t # post"
    and "name t \<notin> name ` set post" and "task_id t \<notin> task_id ` set pre"
    and "j < length taskDataList"
    and "name t = td_name (taskDataList ! j)" and "status t = COMPLETED"
  shows
    "(let st = materializeAll gen now existingTasks taskDataList selective_mode gar;
          result = batchCreateOrUpdateTasks gen now existingTasks taskDataList selective_mode gar
      in length (newTasks st) < length taskDataList
       \<and> (\<forall>i. j \<le> i \<and> i < length (newTasks st) \<longrightarrow>
             (\<exists>k. i < k \<and> k < length taskDataList \<and>
                ((\<exists>base. newTasks st ! i = updatedTaskOf now gar base (taskDataList ! k)) \<or>
                 (\<exists>newTaskId. newTasks st ! i = newTaskOf newTaskId now gar (taskDataList ! k))))
             \<and> (distinct (map td_name taskDataList) \<longrightarrow>
                  name (newTasks st ! i) \<noteq> td_name (taskDataList ! i)))
       \<and> ((\<exists>i<length taskDataList. length (newTasks st) \<le> i \<and> hasDependencies (taskDataList ! i))
             \<longrightarrow> result = Inl TypeError)
       \<and> ((\<forall>i<length taskDataList. hasDependencies (taskDataList ! i) \<longrightarrow> i < length (newTasks st))
             \<longrightarrow> (\<exists>returned.
                    result = Inr (returned, tasksToKeep st @ returned) \<and>
                    length returned = length (newTasks st) \<and>
                    (\<forall>i<length returned. returned ! i =
                       (if hasDependencies (taskDataList ! i)
                        then (newTasks st ! i) \<lparr> dependencies :=
                               resolveDependencies (taskNameToIdMap st)
                                 (tasksToKeep st @ newTasks st)
                                 (dependencyNames (taskDataList ! i)) \<rparr>
                        else newTasks st ! i)))))"
proof -
  let ?st = "materializeAll gen now existingTasks taskDataList selective_mode gar"
  let ?result = "batchCreateOrUpdateTasks gen now existingTasks taskDataList selective_mode gar"
  have A: "length (newTasks ?st) < length taskDataList"
    by (rule selective_completed_shorter[OF assms])
  have B1: "\<exists>k. i < k \<and> k < length taskDataList \<and>
                ((\<exists>base. newTasks ?st ! i = updatedTaskOf now gar base (taskDataList ! k)) \<or>
                 (\<exists>newTaskId. newTasks ?st ! i = newTaskOf newTaskId now gar (taskDataList ! k)))"
    if "j \<le> i" "i < length (newTasks ?st)" for i
    by (rule selective_completed_shifted[OF assms that])
  have B2: "name (newTasks ?st ! i) \<noteq> td_name (taskDataList ! i)"
    if "j \<le> i" "i < length (newTasks ?st)" "distinct (map td_name taskDataList)" for i
  proof -
    from B1[OF that(1,2)] obtain k where k: "i < k" "k < length taskDataList"
      "(\<exists>base. newTasks ?st ! i = updatedTaskOf now gar base (taskDataList ! k)) \<or>
       (\<exists>newTaskId. newTasks ?st ! i = newTaskOf newTaskId now gar (taskDataList ! k))"
      by blast
    from made_from_name[OF k(3)] have n: "name (newTasks ?st ! i) = td_name (taskDataList ! k)" .
    have "i < length (map td_name taskDataList)" "k < length (map td_name taskDataList)"
      using k(1,2) by simp_all
    from nth_eq_iff_index_eq[OF that(3) this(2,1)] k(1)
    have "map td_name taskDataList ! k \<noteq> map td_name taskDataList ! i" by simp
    then show ?thesis using n k(1,2) by simp
  qed
  have E: "?result = Inl TypeError"
    if "\<exists>i<length taskDataList. length (newTasks ?st) \<le> i \<and> hasDependencies (taskDataList ! i)"
    using that by (simp add: batch_Inl_iff fixupDependencies_Inl_iff) blast
  have F: "\<exists>returned.
        ?result = Inr (returned, tasksToKeep ?st @ returned) \<and>
        length returned = length (newTasks ?st) \<and>
        (\<forall>i<length returned. returned ! i =
           (if hasDependencies (taskDataList ! i)
            then (newTasks ?st ! i) \<lparr> dependencies :=
                   resolveDependencies (taskNameToIdMap ?st) (tasksToKeep ?st @ newTasks ?st)
                     (dependencyNames (taskDataList ! i)) \<rparr>
            else newTasks ?st ! i))"
    if ok: "\<forall>i<length taskDataList. hasDependencies (taskDataList ! i) \<longrightarrow> i < length (newTasks ?st)"
  proof -
    from fixupDependencies_total[OF ok, of "taskNameToIdMap ?st" "tasksToKeep ?st"]
    obtain returned where fx: "fixupDependencies (taskNameToIdMap ?st) (tasksToKeep ?st) 0
          taskDataList (newTasks ?st) = Inr returned"
      and len: "length returned = length (newTasks ?st)"
      and nth: "\<forall>i<length returned. returned ! i =
              (if i < length taskDataList \<and> hasDependencies (taskDataList ! i)
               then (newTasks ?st ! i) \<lparr> dependencies :=
                      resolveDependencies (taskNameToIdMap ?st) (tasksToKeep ?st @ newTasks ?st)
                        (dependencyNames (taskDataList ! i)) \<rparr>
               else newTasks ?st ! i)"
      by blast
    have r: "?result = Inr (returned, tasksToKeep ?st @ returned)"
      using fx by (simp add: batch_Inr_iff)
    have "\<forall>i<length returned. returned ! i =
           (if hasDependencies (taskDataList ! i)
            then (newTasks ?st ! i) \<lparr> dependencies :=
                   resolveDependencies (taskNameToIdMap ?st) (tasksToKeep ?st @ newTasks ?st)
                     (dependencyNames (taskDataList ! i)) \<rparr>
            else newTasks ?st ! i)"
      using nth len A by simp
    with r len show ?thesis by blast
  qed
  have B: "\<forall>i. j \<le> i \<and> i < length (newTasks ?st) \<longrightarrow>
             (\<exists>k. i < k \<and> k < length taskDataList \<and>
                ((\<exists>base. newTasks ?st ! i = updatedTaskOf now gar base (taskDataList ! k)) \<or>
                 (\<exists>newTaskId. newTasks ?st ! i = newTaskOf newTaskId now gar (taskDataList ! k))))
             \<and> (distinct (map td_name taskDataList) \<longrightarrow>
                  name (newTasks ?st ! i) \<noteq> td_name (taskDataList ! i))"
  proof (intro allI impI conjI)
    fix i assume "j \<le> i \<and> i < length (newTasks ?st)"
    then show "\<exists>k. i < k \<and> k < length taskDataList \<and>
                ((\<exists>base. newTasks ?st ! i = updatedTaskOf now gar base (taskDataList ! k)) \<or>
                 (\<exists>newTaskId. newTasks ?st ! i = newTaskOf newTaskId now gar (taskDataList ! k)))"
      using B1[of i] by simp
  next
    fix i assume "j \<le> i \<and> i < length (newTasks ?st)" "distinct (map td_name taskDataList)"
    then show "name (newTasks ?st ! i) \<noteq> td_name (taskDataList ! i)"
      using B2[of i] by simp
  qed
  show ?thesis
    unfolding Let_def
    apply (rule conjI[OF A])
    apply (rule conjI[OF B])
    apply (rule conjI)
     apply (rule impI, erule E)
    apply (rule impI, erule F)
    done
qed

text \<open>
  The claim as first stated fails when a later task of the store has the same name as
  the completed one: the store holds the completed task c1 and, after it, the pending
  task p1, both named X. The name resolves to p1, so the spec X updates p1, two tasks
  are made for the two specs and the dependency of Y is put on the task made from Y.
\<close>

theorem C3_counterexample:
  "name (exampleTask ''c1'' ''X'' COMPLETED []) = td_name ([exampleSpec ''X'' None, exampleSpec ''Y'' (Some [''X''])] ! 0)
   \<and> status (exampleTask ''c1'' ''X'' COMPLETED []) = COMPLETED
   \<and> length (newTasks (materializeAll exampleUuid 10
        [exampleTask ''c1'' ''X'' COMPLETED [], exampleTask ''p1'' ''X'' PENDING []]
        [exampleSpec ''X'' None, exampleSpec ''Y'' (Some [''X''])] selective_mode None))
     = length [exampleSpec ''X'' None, exampleSpec ''Y'' (Some [''X''])]
   \<and> \<not> isl (batchCreateOrUpdateTasks exampleUuid 10
          [exampleTask ''c1'' ''X'' COMPLETED [], exampleTask ''p1'' ''X'' PENDING []]
          [exampleSpec ''X'' None, exampleSpec ''Y'' (Some [''X''])] selective_mode None)
   \<and> map name (fst (projr (batchCreateOrUpdateTasks exampleUuid 10
          [exampleTask ''c1'' ''X'' COMPLETED [], exampleTask ''p1'' ''X'' PENDING []]
          [exampleSpec ''X'' None, exampleSpec ''Y'' (Some [''X''])] selective_mode None)))
     = [''X'', ''Y'']
   \<and> map task_id (fst (projr (batchCreateOrUpdateTasks exampleUuid 10
          [exampleTask ''c1'' ''X'' COMPLETED [], exampleTask ''p1'' ''X'' PENDING []]
          [exampleSpec ''X'' None, exampleSpec ''Y'' (Some [''X''])] selective_mode None)))
     = [''p1'', exampleUuid 0]
   \<and> map dependencies (fst (projr (batchCreateOrUpdateTasks exampleUuid 10
          [exampleTask ''c1'' ''X'' COMPLETED [], exampleTask ''p1'' ''X'' PENDING []]
          [exampleSpec ''X'' None, exampleSpec ''Y'' (Some [''X''])] selective_mode None)))
     = [[], [\<lparr> taskId = ''p1'' \<rparr>]]"
  by (simp add: batch_defs example_defs)

text \<open>
  The theorem on a store holding the completed task X, in selective mode. On the batch
  of the specs X and Y, where Y depends on X, one task is made and the fix-up pass throws
  at position 1. On the batch of the specs X and Y, where X depends on Y, the batch
  returns the one task made from Y, which holds the dependency of X: its own
  identifier.
\<close>

theorem C3_witness:
  "batchCreateOrUpdateTasks exampleUuid 10 [exampleTask ''c1'' ''X'' COMPLETED []]
       [exampleSpec ''X'' None, exampleSpec ''Y'' (Some [''X''])] selective_mode None
     = Inl TypeError
   \<and> (\<exists>returned written.
        batchCreateOrUpdateTasks exampleUuid 10 [exampleTask ''c1'' ''X'' COMPLETED []]
          [exampleSpec ''X'' (Some [''Y'']), exampleSpec ''Y'' None] selective_mode None
          = Inr (returned, written) \<and>
        length returned = 1 \<and> name (returned ! 0) = ''Y'' \<and>
        task_id (returned ! 0) = exampleUuid 0 \<and>
        dependencies (returned ! 0) = [\<lparr> taskId = exampleUuid 0 \<rparr>])"
proof -
  let ?c1 = "exampleTask ''c1'' ''X'' COMPLETED []"
  let ?ex = "[?c1]"
  let ?specs = "[exampleSpec ''X'' None, exampleSpec ''Y'' (Some [''X''])]"
  let ?specs2 = "[exampleSpec ''X'' (Some [''Y'']), exampleSpec ''Y'' None]"
  let ?st = "materializeAll exampleUuid 10 ?ex ?specs selective_mode None"
  let ?st2 = "materializeAll exampleUuid 10 ?ex ?specs2 selective_mode None"
  let ?r2 = "batchCreateOrUpdateTasks exampleUuid 10 ?ex ?specs2 selective_mode None"
  have h: "?ex = [] @ ?c1 # []" "name ?c1 \<notin> name ` set []" "task_id ?c1 \<notin> task_id ` set []"
    "0 < length ?specs" "name ?c1 = td_name (?specs ! 0)" "status ?c1 = COMPLETED"
    by (simp_all add: example_defs)
  note c3 = C3_fixup_indexes_by_spec_position[OF h, of exampleUuid 10 None, unfolded Let_def]
  from c3 have len: "length (newTasks ?st) < length ?specs" by (rule conjunct1)
  have "hasDependencies (?specs ! 1)" by (simp add: example_defs hasDependencies_def)
  with len have "\<exists>i<length ?specs. length (newTasks ?st) \<le> i \<and> hasDependencies (?specs ! i)"
    by (intro exI[of _ 1]) simp
  then have throws:
    "batchCreateOrUpdateTasks exampleUuid 10 ?ex ?specs selective_mode None = Inl TypeError"
    by (rule c3[THEN conjunct2, THEN conjunct2, THEN conjunct1, THEN mp])
  have h2: "0 < length ?specs2" "name ?c1 = td_name (?specs2 ! 0)"
    by (simp_all add: example_defs)
  note c3' = C3_fixup_indexes_by_spec_position[OF h(1-3) h2 h(6), of exampleUuid 10 None,
      unfolded Let_def]
  have st2: "newTasks ?st2 = [newTaskOf (exampleUuid 0) 10 None (exampleSpec ''Y'' None)]"
    "taskNameToIdMap ?st2 ''Y'' = Some (exampleUuid 0)" "tasksToKeep ?st2 = []"
    by (simp_all add: batch_defs example_defs)
  have deps: "hasDependencies (?specs2 ! 0)" "\<not> hasDependencies (?specs2 ! 1)"
    "dependencyNames (?specs2 ! 0) = [''Y'']"
    by (simp_all add: example_defs hasDependencies_def dependencyNames_def)
  have ok: "\<forall>i<length ?specs2. hasDependencies (?specs2 ! i) \<longrightarrow> i < length (newTasks ?st2)"
    using deps(2) st2(1) by (simp add: less_Suc_eq)
  note f = c3'[THEN conjunct2, THEN conjunct2, THEN conjunct2, THEN mp, OF ok]
  from f obtain returned where r: "?r2 = Inr (returned, tasksToKeep ?st2 @ returned)"
    and l: "length returned = length (newTasks ?st2)"
    and n: "\<forall>i<length returned. returned ! i =
         (if hasDependencies (?specs2 ! i)
          then (newTasks ?st2 ! i) \<lparr> dependencies :=
                 resolveDependencies (taskNameToIdMap ?st2) (tasksToKeep ?st2 @ newTasks ?st2)
                   (dependencyNames (?specs2 ! i)) \<rparr>
          else newTasks ?st2 ! i)"
    by (elim exE conjE)
  from l st2(1) have l1: "length returned = 1" by simp
  have nu: "\<not> matches_uuid ''Y''" by (simp add: matches_uuid_def)
  from n l1 deps(1) have "returned ! 0 = (newTasks ?st2 ! 0) \<lparr> dependencies :=
      resolveDependencies (taskNameToIdMap ?st2) (tasksToKeep ?st2 @ newTasks ?st2)
        (dependencyNames (?specs2 ! 0)) \<rparr>"
    by simp
  then have "returned ! 0 = (newTaskOf (exampleUuid 0) 10 None (exampleSpec ''Y'' None))
      \<lparr> dependencies := [\<lparr> taskId = exampleUuid 0 \<rparr>] \<rparr>"
    unfolding deps(3) st2(1) using st2(2) nu by simp
  then have "name (returned ! 0) = ''Y''" "task_id (returned ! 0) = exampleUuid 0"
    "dependencies (returned ! 0) = [\<lparr> taskId = exampleUuid 0 \<rparr>]"
    by (simp_all add: newTaskOf_def example_defs)
  with r l1 have "\<exists>returned written. ?r2 = Inr (returned, written) \<and>
        length returned = 1 \<and> name (returned ! 0) = ''Y'' \<and>
        task_id (returned ! 0) = exampleUuid 0 \<and>
        dependencies (returned ! 0) = [\<lparr> taskId = exampleUuid 0 \<rparr>]"
    by blast
  with throws show ?thesis by (rule conjI)
qed

section \<open>Lemmas: identifiers recorded in the map belong to kept or new tasks\<close>

lemma materialize_ids_mono:
  "task_id ` (set (tasksToKeep st) \<union> set (newTasks st))
     \<subseteq> task_id ` (set (tasksToKeep (materialize gen now existingTasks updateMode gar st s))
          \<union> set (newTasks (materialize gen now existingTasks updateMode gar st s)))"
proof (cases rule: materialize_cases[of updateMode gen now existingTasks gar st s])
  case (skip w)
  then show ?thesis by simp
next
  case (update w k)
  from findIndex_Some[OF update(3)] have "task_id (existingTasks ! k) = w" by simp
  then have "task_id (updatedTaskOf now gar (existingTasks ! k) s) = w"
    by (simp add: updatedTaskOf_fields)
  then show ?thesis unfolding update(5) by auto
next
  case create
  then show ?thesis by auto
qed

lemma materialize_keep_subset:
  "set (tasksToKeep (materialize gen now existingTasks updateMode gar st s)) \<subseteq> set (tasksToKeep st)"
  by (cases rule: materialize_cases[of updateMode gen now existingTasks gar st s]) auto

lemma foldl_materialize_keep_subset:
  "set (tasksToKeep (foldl (materialize gen now existingTasks updateMode gar) st xs))
     \<subseteq> set (tasksToKeep st)"
proof (induction xs arbitrary: st)
  case Nil
  show ?case by simp
next
  case (Cons s xs)
  have "set (tasksToKeep (foldl (materialize gen now existingTasks updateMode gar)
          (materialize gen now existingTasks updateMode gar st s) xs))
        \<subseteq> set (tasksToKeep (materialize gen now existingTasks updateMode gar st s))"
    by (rule Cons.IH)
  also have "\<dots> \<subseteq> set (tasksToKeep st)" by (rule materialize_keep_subset)
  finally show ?case by simp
qed

lemma materialize_resolvable:
  assumes inv: "\<And>n v. taskNameToIdMap st n = Some v \<Longrightarrow>
      v \<in> task_id ` (set (tasksToKeep st) \<union> set (newTasks st)) \<or>
      (updateMode = selective_mode \<and> n \<in> td_name ` set (s # rest) \<and>
       (\<exists>k. findIndex (\<lambda>x. task_id x = v) existingTasks = Some k \<and>
            status (existingTasks ! k) \<noteq> COMPLETED))"
    and m': "taskNameToIdMap (materialize gen now existingTasks updateMode gar st s) n = Some v"
  shows "v \<in> task_id ` (set (tasksToKeep (materialize gen now existingTasks updateMode gar st s))
                \<union> set (newTasks (materialize gen now existingTasks updateMode gar st s))) \<or>
      (updateMode = selective_mode \<and> n \<in> td_name ` set rest \<and>
       (\<exists>k. findIndex (\<lambda>x. task_id x = v) existingTasks = Some k \<and>
            status (existingTasks ! k) \<noteq> COMPLETED))"
proof -
  let ?st' = "materialize gen now existingTasks updateMode gar st s"
  let ?ids = "\<lambda>st. task_id ` (set (tasksToKeep st) \<union> set (newTasks st))"
  let ?live = "\<lambda>v. \<exists>k. findIndex (\<lambda>x. task_id x = v) existingTasks = Some k \<and>
            status (existingTasks ! k) \<noteq> COMPLETED"
  have mono: "?ids st \<subseteq> ?ids ?st'" by (rule materialize_ids_mono)
  show ?thesis
  proof (cases rule: materialize_cases[of updateMode gen now existingTasks gar st s])
    case (skip w)
    from m' skip(2) have mn: "taskNameToIdMap st n = Some v" by simp
    from inv[OF mn] show ?thesis
    proof
      assume "v \<in> ?ids st"
      then show ?thesis using skip(2) by simp
    next
      assume p: "updateMode = selective_mode \<and> n \<in> td_name ` set (s # rest) \<and> ?live v"
      have "n \<noteq> td_name s"
      proof
        assume "n = td_name s"
        with mn skip(3) have "v = w" by simp
        with p skip(4) show False by blast
      qed
      with p show ?thesis by auto
    qed
  next
    case (update w k)
    from m' update(5) have mn: "taskNameToIdMap st n = Some v" by simp
    from findIndex_Some[OF update(3)] have "task_id (existingTasks ! k) = w" by simp
    then have w: "w \<in> ?ids ?st'"
      unfolding update(5) by (simp add: updatedTaskOf_fields)
    from inv[OF mn] show ?thesis
    proof
      assume "v \<in> ?ids st"
      with mono show ?thesis by blast
    next
      assume p: "updateMode = selective_mode \<and> n \<in> td_name ` set (s # rest) \<and> ?live v"
      show ?thesis
      proof (cases "n = td_name s")
        case True
        with mn update(2) have "v = w" by simp
        with w show ?thesis by blast
      next
        case False
        with p show ?thesis by auto
      qed
    qed
  next
    case create
    show ?thesis
    proof (cases "n = td_name s")
      case True
      with m' create(2) have "v = gen (uuid_calls st)" by simp
      then have "v \<in> ?ids ?st'" unfolding create(2) by (simp add: newTaskOf_fields)
      then show ?thesis by blast
    next
      case False
      with m' create(2) have mn: "taskNameToIdMap st n = Some v" by simp
      from inv[OF mn] show ?thesis
      proof
        assume "v \<in> ?ids st"
        with mono show ?thesis by blast
      next
        assume "updateMode = selective_mode \<and> n \<in> td_name ` set (s # rest) \<and> ?live v"
        with False show ?thesis by auto
      qed
    qed
  qed
qed

lemma foldl_materialize_resolvable:
  assumes "\<And>n v. taskNameToIdMap st n = Some v \<Longrightarrow>
      v \<in> task_id ` (set (tasksToKeep st) \<union> set (newTasks st)) \<or>
      (updateMode = selective_mode \<and> n \<in> td_name ` set xs \<and>
       (\<exists>k. findIndex (\<lambda>x. task_id x = v) existingTasks = Some k \<and>
            status (existingTasks ! k) \<noteq> COMPLETED))"
    and "taskNameToIdMap (foldl (materialize gen now existingTasks updateMode gar) st xs) n = Some v"
  shows "v \<in> task_id `
           (set (tasksToKeep (foldl (materialize gen now existingTasks updateMode gar) st xs))
            \<union> set (newTasks (foldl (materialize gen now existingTasks updateMode gar) st xs)))"
  using assms
proof (induction xs arbitrary: st)
  case Nil
  from Nil(1)[of n v] Nil(2) show ?case by simp
next
  case (Cons s xs)
  let ?st' = "materialize gen now existingTasks updateMode gar st s"
  have inv': "v' \<in> task_id ` (set (tasksToKeep ?st') \<union> set (newTasks ?st')) \<or>
      (updateMode = selective_mode \<and> n' \<in> td_name ` set xs \<and>
       (\<exists>k. findIndex (\<lambda>x. task_id x = v') existingTasks = Some k \<and>
            status (existingTasks ! k) \<noteq> COMPLETED))"
    if "taskNameToIdMap ?st' n' = Some v'" for n' v'
    by (rule materialize_resolvable[OF Cons.prems(1) that])
  from Cons.prems(2) have "taskNameToIdMap (foldl (materialize gen now existingTasks updateMode gar) ?st' xs) n = Some v"
    by simp
  from Cons.IH[OF inv' this] show ?case by simp
qed


lemma initial_resolvable:
  assumes H: "updateMode = selective_mode \<longrightarrow>
      (\<forall>t\<in>set existingTasks. status t = COMPLETED \<longrightarrow> name t \<notin> td_name ` set taskDataList)"
    and m: "initialNameToIdMap existingTasks
        (initialTasksToKeep existingTasks taskDataList updateMode) updateMode n = Some v"
  shows "v \<in> task_id ` set (initialTasksToKeep existingTasks taskDataList updateMode) \<or>
      (updateMode = selective_mode \<and> n \<in> td_name ` set taskDataList \<and>
       (\<exists>k. findIndex (\<lambda>x. task_id x = v) existingTasks = Some k \<and>
            status (existingTasks ! k) \<noteq> COMPLETED))"
proof -
  let ?keep = "initialTasksToKeep existingTasks taskDataList updateMode"
  let ?m0 = "if updateMode = selective_mode then recordNames existingTasks Map.empty else Map.empty"
  from m have "recordNames ?keep ?m0 n = Some v" by (simp add: initialNameToIdMap_def)
  from recordNames_Some[OF this]
  show ?thesis
  proof
    assume "\<exists>t\<in>set ?keep. name t = n \<and> task_id t = v"
    then show ?thesis by blast
  next
    assume m0: "?m0 n = Some v"
    then have sel: "updateMode = selective_mode" by (auto split: if_splits)
    with m0 have "recordNames existingTasks Map.empty n = Some v" by simp
    from recordNames_Some[OF this] obtain t where
      t: "t \<in> set existingTasks" "name t = n" "task_id t = v" by auto
    have keep: "?keep = filter (\<lambda>x. name x \<notin> set (map td_name taskDataList)) existingTasks"
      using sel by (simp add: initialTasksToKeep_def)
    show ?thesis
    proof (cases "n \<in> td_name ` set taskDataList")
      case False
      with t have "t \<in> set ?keep" unfolding keep by simp
      with t(3) show ?thesis by blast
    next
      case True
      from findIndex_exists[of t existingTasks "\<lambda>x. task_id x = v"] t
      obtain k where k: "findIndex (\<lambda>x. task_id x = v) existingTasks = Some k" by auto
      from findIndex_Some[OF k] have kk: "k < length existingTasks" "task_id (existingTasks ! k) = v"
        by simp_all
      show ?thesis
      proof (cases "status (existingTasks ! k) = COMPLETED")
        case F: False
        with sel True k show ?thesis by blast
      next
        case T: True
        have mem: "existingTasks ! k \<in> set existingTasks" using kk(1) by simp
        with H sel T have "name (existingTasks ! k) \<notin> td_name ` set taskDataList" by blast
        with mem have "existingTasks ! k \<in> set ?keep" unfolding keep by simp
        with kk(2) show ?thesis by blast
      qed
    qed
  qed
qed

lemma materializeAll_resolvable:
  assumes H: "updateMode = selective_mode \<longrightarrow>
      (\<forall>t\<in>set existingTasks. status t = COMPLETED \<longrightarrow> name t \<notin> td_name ` set taskDataList)"
    and m: "taskNameToIdMap (materializeAll gen now existingTasks taskDataList updateMode gar) n
              = Some v"
  shows "v \<in> task_id `
           (set (tasksToKeep (materializeAll gen now existingTasks taskDataList updateMode gar))
            \<union> set (newTasks (materializeAll gen now existingTasks taskDataList updateMode gar)))"
proof -
  let ?st0 = "\<lparr> tasksToKeep = initialTasksToKeep existingTasks taskDataList updateMode,
          taskNameToIdMap = initialNameToIdMap existingTasks
            (initialTasksToKeep existingTasks taskDataList updateMode) updateMode,
          newTasks = [], uuid_calls = 0 \<rparr>"
  have all: "materializeAll gen now existingTasks taskDataList updateMode gar
      = foldl (materialize gen now existingTasks updateMode gar) ?st0 taskDataList"
    by (simp add: materializeAll_def Let_def)
  have inv0: "v' \<in> task_id ` (set (tasksToKeep ?st0) \<union> set (newTasks ?st0)) \<or>
      (updateMode = selective_mode \<and> n' \<in> td_name ` set taskDataList \<and>
       (\<exists>k. findIndex (\<lambda>x. task_id x = v') existingTasks = Some k \<and>
            status (existingTasks ! k) \<noteq> COMPLETED))"
    if "taskNameToIdMap ?st0 n' = Some v'" for n' v'
    using initial_resolvable[OF H, of n' v'] that by simp
  from m have "taskNameToIdMap (foldl (materialize gen now existingTasks updateMode gar) ?st0 taskDataList) n = Some v"
    unfolding all .
  from foldl_materialize_resolvable[OF inv0 this] show ?thesis unfolding all .
qed

lemma materializeAll_keep_subset:
  "set (tasksToKeep (materializeAll gen now existingTasks taskDataList updateMode gar))
     \<subseteq> set existingTasks"
proof -
  have "set (tasksToKeep (materializeAll gen now existingTasks taskDataList updateMode gar))
      \<subseteq> set (initialTasksToKeep existingTasks taskDataList updateMode)"
    unfolding materializeAll_def Let_def
    using foldl_materialize_keep_subset[of gen now existingTasks updateMode gar
        "\<lparr> tasksToKeep = initialTasksToKeep existingTasks taskDataList updateMode,
          taskNameToIdMap = initialNameToIdMap existingTasks
            (initialTasksToKeep existingTasks taskDataList updateMode) updateMode,
          newTasks = [], uuid_calls = 0 \<rparr>" taskDataList]
    by simp
  with initialTasksToKeep_subset show ?thesis by blast
qed

lemma materializeAll_length_le:
  "length (newTasks (materializeAll gen now existingTasks taskDataList updateMode gar))
     \<le> length taskDataList"
  unfolding materializeAll_def Let_def
  using foldl_materialize_pushes[of gen now existingTasks updateMode gar
        "\<lparr> tasksToKeep = initialTasksToKeep existingTasks taskDataList updateMode,
          taskNameToIdMap = initialNameToIdMap existingTasks
            (initialTasksToKeep existingTasks taskDataList updateMode) updateMode,
          newTasks = [], uuid_calls = 0 \<rparr>" taskDataList]
  by auto

section \<open>Lemmas: the modes other than selective create one task for every spec\<close>

lemma foldl_materialize_nonselective:
  assumes "updateMode \<noteq> selective_mode"
  shows "length (newTasks (foldl (materialize gen now existingTasks updateMode gar) st xs))
           = length (newTasks st) + length xs \<and>
         ((\<forall>t\<in>set (newTasks st). dependencies t = []) \<longrightarrow>
          (\<forall>t\<in>set (newTasks (foldl (materialize gen now existingTasks updateMode gar) st xs)).
             dependencies t = []))"
proof (induction xs arbitrary: st)
  case Nil
  show ?case by simp
next
  case (Cons s xs)
  let ?st' = "materialize gen now existingTasks updateMode gar st s"
  have new': "newTasks ?st' = newTasks st @ [newTaskOf (gen (uuid_calls st)) now gar s]"
    using assms by (cases rule: materialize_cases[of updateMode gen now existingTasks gar st s]) simp_all
  from Cons.IH[of ?st'] show ?case
    by (simp add: new' newTaskOf_fields)
qed

lemma materializeAll_nonselective:
  assumes "updateMode \<noteq> selective_mode"
  shows "length (newTasks (materializeAll gen now existingTasks taskDataList updateMode gar))
           = length taskDataList"
    and "\<forall>t\<in>set (newTasks (materializeAll gen now existingTasks taskDataList updateMode gar)).
           dependencies t = []"
  unfolding materializeAll_def Let_def
  using foldl_materialize_nonselective[OF assms, of gen now existingTasks gar
        "\<lparr> tasksToKeep = initialTasksToKeep existingTasks taskDataList updateMode,
          taskNameToIdMap = initialNameToIdMap existingTasks
            (initialTasksToKeep existingTasks taskDataList updateMode) updateMode,
          newTasks = [], uuid_calls = 0 \<rparr>" taskDataList]
  by simp_all

lemma batch_nonselective_returns:
  assumes "updateMode \<noteq> selective_mode"
  shows "\<exists>returned written.
     batchCreateOrUpdateTasks gen now existingTasks taskDataList updateMode gar
       = Inr (returned, written)"
proof (cases "batchCreateOrUpdateTasks gen now existingTasks taskDataList updateMode gar")
  case (Inl e)
  then have "batchCreateOrUpdateTasks gen now existingTasks taskDataList updateMode gar = Inl TypeError"
    by (cases e) simp
  then obtain k where "k < length taskDataList"
    "length (newTasks (materializeAll gen now existingTasks taskDataList updateMode gar)) \<le> 0 + k"
    unfolding batch_Inl_iff fixupDependencies_Inl_iff by blast
  with materializeAll_nonselective(1)[OF assms, of gen now existingTasks taskDataList gar]
  show ?thesis by simp
next
  case (Inr p)
  then show ?thesis by (cases p) auto
qed

lemma fixupDependencies_ids:
  assumes "fixupDependencies m keep i rest new = Inr new'"
  shows "map task_id new' = map task_id new"
proof (rule nth_equalityI)
  show "length (map task_id new') = length (map task_id new)"
    using fixupDependencies_length[OF assms] by simp
next
  fix k assume "k < length (map task_id new')"
  then have k: "k < length new" "k < length new'"
    using fixupDependencies_length[OF assms] by simp_all
  from fixupDependencies_same_fields[OF assms k(1)]
  obtain ds where "new' ! k = (new ! k) \<lparr> dependencies := ds \<rparr>" by blast
  then show "map task_id new' ! k = map task_id new ! k" using k by simp
qed

section \<open>Dependencies written by the fix-up pass\<close>

text \<open>
  Claim C1, as amended. Let a batch return. The returned list is never longer than the
  list of specs and the written list is a list of existing tasks, kept as they were,
  followed by the returned list. Every dependency list the fix-up pass writes (at
  position \<open>i\<close> of the returned list, for a spec at position \<open>i\<close> that lists
  dependencies) holds only identifiers of tasks of the written list, provided that in
  selective mode no spec carries the name of an existing COMPLETED task. In append,
  overwrite and clearAllTasks mode this covers every task of the returned list. The
  dependency lists of the kept tasks are not examined.
\<close>

theorem C1_fixup_dependencies_resolve:
  assumes "batchCreateOrUpdateTasks gen now existingTasks taskDataList updateMode gar
             = Inr (returned, written)"
    and "updateMode = selective_mode \<longrightarrow>
      (\<forall>t\<in>set existingTasks. status t = COMPLETED \<longrightarrow> name t \<notin> td_name ` set taskDataList)"
  shows "length returned \<le> length taskDataList
     \<and> (\<exists>kept. written = kept @ returned \<and> set kept \<subseteq> set existingTasks)
     \<and> (\<forall>i<length returned. hasDependencies (taskDataList ! i) \<longrightarrow>
           (\<forall>d\<in>set (dependencies (returned ! i)). taskId d \<in> task_id ` set written))
     \<and> (updateMode \<noteq> selective_mode \<longrightarrow>
           (\<forall>t\<in>set returned. \<forall>d\<in>set (dependencies t). taskId d \<in> task_id ` set written))"
proof -
  let ?st = "materializeAll gen now existingTasks taskDataList updateMode gar"
  let ?m = "taskNameToIdMap ?st" and ?keep = "tasksToKeep ?st" and ?new = "newTasks ?st"
  from assms(1) have fx: "fixupDependencies ?m ?keep 0 taskDataList ?new = Inr returned"
    and wr: "written = ?keep @ returned"
    by (simp_all add: batch_Inr_iff)
  have len: "length returned = length ?new" by (rule fixupDependencies_length[OF fx])
  have le: "length returned \<le> length taskDataList"
    unfolding len by (rule materializeAll_length_le)
  have kept: "\<exists>kept. written = kept @ returned \<and> set kept \<subseteq> set existingTasks"
    using wr materializeAll_keep_subset[of gen now existingTasks taskDataList updateMode gar]
    by blast
  have "set (map task_id returned) = set (map task_id ?new)"
    using fixupDependencies_ids[OF fx] by simp
  then have ids: "task_id ` set written = task_id ` (set ?keep \<union> set ?new)"
    unfolding wr by (simp add: image_Un)
  have nth: "returned ! i =
      (if hasDependencies (taskDataList ! i)
       then (?new ! i) \<lparr> dependencies :=
              resolveDependencies ?m (?keep @ ?new) (dependencyNames (taskDataList ! i)) \<rparr>
       else ?new ! i)" if "i < length returned" for i
  proof -
    from that len le have i: "i < length ?new" "i < length taskDataList" by simp_all
    from fixupDependencies_Inr[OF fx] i(1)
    have "returned ! i =
      (if 0 \<le> i \<and> i - 0 < length taskDataList \<and> hasDependencies (taskDataList ! (i - 0))
       then (?new ! i) \<lparr> dependencies :=
              resolveDependencies ?m (?keep @ ?new) (dependencyNames (taskDataList ! (i - 0))) \<rparr>
       else ?new ! i)" by blast
    with i(2) show ?thesis by simp
  qed
  have resolved: "taskId d \<in> task_id ` set written"
    if "d \<in> set (resolveDependencies ?m (?keep @ ?new) deps)" for d deps
  proof -
    from resolveDependencies_sound[OF that]
    show ?thesis
    proof
      assume "taskId d \<in> task_id ` set (?keep @ ?new)"
      then show ?thesis unfolding ids by simp
    next
      assume "\<exists>n\<in>set deps. ?m n = Some (taskId d)"
      then obtain n where "?m n = Some (taskId d)" by blast
      from materializeAll_resolvable[OF assms(2) this] show ?thesis unfolding ids .
    qed
  qed
  have fixed: "\<forall>d\<in>set (dependencies (returned ! i)). taskId d \<in> task_id ` set written"
    if "i < length returned" "hasDependencies (taskDataList ! i)" for i
    using nth[OF that(1)] that(2) resolved by simp
  have all: "\<forall>d\<in>set (dependencies t). taskId d \<in> task_id ` set written"
    if ns: "updateMode \<noteq> selective_mode" and t: "t \<in> set returned" for t
  proof -
    from t obtain i where i: "i < length returned" "returned ! i = t"
      by (auto simp: in_set_conv_nth)
    show ?thesis
    proof (cases "hasDependencies (taskDataList ! i)")
      case True
      from fixed[OF i(1) True] i(2) show ?thesis by simp
    next
      case False
      with nth[OF i(1)] i(2) have "t = ?new ! i" by simp
      moreover have "?new ! i \<in> set ?new" using i(1) len by simp
      ultimately have "dependencies t = []"
        using materializeAll_nonselective(2)[OF ns, of gen now existingTasks taskDataList gar]
        by blast
      then show ?thesis by simp
    qed
  qed
  from le kept fixed all show ?thesis by blast
qed

text \<open>
  The claim as first stated fails in overwrite mode: the completed task C is kept with
  its dependency on the pending task p1, which is not kept.
\<close>

theorem C1_counterexample:
  "batchCreateOrUpdateTasks exampleUuid 10
     [exampleTask ''c1'' ''C'' COMPLETED [''p1''], exampleTask ''p1'' ''P'' PENDING []]
     [exampleSpec ''N'' None] overwrite_mode None
   = Inr ([newTaskOf (exampleUuid 0) 10 None (exampleSpec ''N'' None)],
          [exampleTask ''c1'' ''C'' COMPLETED [''p1''],
           newTaskOf (exampleUuid 0) 10 None (exampleSpec ''N'' None)])
   \<and> \<lparr> taskId = ''p1'' \<rparr> \<in> set (dependencies (exampleTask ''c1'' ''C'' COMPLETED [''p1'']))
   \<and> ''p1'' \<notin> task_id ` set [exampleTask ''c1'' ''C'' COMPLETED [''p1''],
                               newTaskOf (exampleUuid 0) 10 None (exampleSpec ''N'' None)]"
  by (simp add: batch_defs example_defs)

text \<open>
  The theorem on a selective batch: the spec P names the kept task C, itself and an
  unknown name Q; the first two resolve to identifiers of written tasks and Q is
  dropped.
\<close>

theorem C1_witness:
  "batchCreateOrUpdateTasks exampleUuid 10
     [exampleTask ''c1'' ''C'' COMPLETED [], exampleTask ''p1'' ''P'' PENDING []]
     [exampleSpec ''P'' (Some [''C'', ''P'', ''Q''])] selective_mode None
   = Inr ([(updatedTaskOf 10 None (exampleTask ''p1'' ''P'' PENDING [])
              (exampleSpec ''P'' (Some [''C'', ''P'', ''Q''])))
             \<lparr> dependencies := [\<lparr> taskId = ''c1'' \<rparr>, \<lparr> taskId = ''p1'' \<rparr>] \<rparr>],
          [exampleTask ''c1'' ''C'' COMPLETED [],
           (updatedTaskOf 10 None (exampleTask ''p1'' ''P'' PENDING [])
              (exampleSpec ''P'' (Some [''C'', ''P'', ''Q''])))
             \<lparr> dependencies := [\<lparr> taskId = ''c1'' \<rparr>, \<lparr> taskId = ''p1'' \<rparr>] \<rparr>])
   \<and> taskId \<lparr> taskId = ''p1'' \<rparr> \<in> task_id ` set [exampleTask ''c1'' ''C'' COMPLETED [],
           (updatedTaskOf 10 None (exampleTask ''p1'' ''P'' PENDING [])
              (exampleSpec ''P'' (Some [''C'', ''P'', ''Q''])))
             \<lparr> dependencies := [\<lparr> taskId = ''c1'' \<rparr>, \<lparr> taskId = ''p1'' \<rparr>] \<rparr>]"
proof -
  let ?ex = "[exampleTask ''c1'' ''C'' COMPLETED [], exampleTask ''p1'' ''P'' PENDING []]"
  let ?specs = "[exampleSpec ''P'' (Some [''C'', ''P'', ''Q''])]"
  let ?p = "(updatedTaskOf 10 None (exampleTask ''p1'' ''P'' PENDING [])
              (exampleSpec ''P'' (Some [''C'', ''P'', ''Q''])))
             \<lparr> dependencies := [\<lparr> taskId = ''c1'' \<rparr>, \<lparr> taskId = ''p1'' \<rparr>] \<rparr>"
  have r: "batchCreateOrUpdateTasks exampleUuid 10 ?ex ?specs selective_mode None
      = Inr ([?p], [exampleTask ''c1'' ''C'' COMPLETED [], ?p])"
    by (simp add: batch_defs example_defs)
  have h: "selective_mode = selective_mode \<longrightarrow>
      (\<forall>t\<in>set ?ex. status t = COMPLETED \<longrightarrow> name t \<notin> td_name ` set ?specs)"
    by (simp add: example_defs)
  have d: "hasDependencies (?specs ! 0)" by (simp add: example_defs hasDependencies_def)
  from C1_fixup_dependencies_resolve[OF r h]
  have "\<forall>i<length [?p]. hasDependencies (?specs ! i) \<longrightarrow>
      (\<forall>d\<in>set (dependencies ([?p] ! i)).
         taskId d \<in> task_id ` set [exampleTask ''c1'' ''C'' COMPLETED [], ?p])"
    by blast
  with d have "\<forall>d\<in>set (dependencies ?p).
      taskId d \<in> task_id ` set [exampleTask ''c1'' ''C'' COMPLETED [], ?p]"
    by simp
  then have "taskId \<lparr> taskId = ''p1'' \<rparr> \<in> task_id ` set [exampleTask ''c1'' ''C'' COMPLETED [], ?p]"
    by simp
  with r show ?thesis by (rule conjI)
qed

section \<open>A spec named like a completed task\<close>

text \<open>
  Claim C2, on a concrete input. The store holds the single task X, which is
  COMPLETED; the batch, run in selective mode, holds the single spec X. The call returns
  the empty list and writes the empty list: no task is made for the spec, and the
  completed task is not kept either.
\<close>

theorem C2_completed_match_creates_nothing:
  "batchCreateOrUpdateTasks exampleUuid 10 [exampleTask ''c1'' ''X'' COMPLETED []]
     [exampleSpec ''X'' None] selective_mode None = Inr ([], [])"
  by (simp add: batch_defs example_defs)

section \<open>Forward name references within one batch\<close>

text \<open>
  Claim C5. The batch \<open>[{name: "A", dependencies: ["B"]}, {name: "B"}]\<close>, run in
  append mode on an empty store, returns and writes exactly two tasks: the new task A,
  whose single dependency is the identifier generated for B (the second call of the
  generator), and the new task B. After the loop over the specs, and so before the
  fix-up pass, the name B is registered in the name to identifier map with that
  identifier. The other properties of the two specs are arbitrary.
\<close>

theorem C5_forward_name_reference:
  "batchCreateOrUpdateTasks gen now []
     [\<lparr> td_name = ''A'', td_description = da, td_notes = na, td_dependencies = Some [''B''],
        td_relatedFiles = ra, td_implementationGuide = ia, td_verificationCriteria = va \<rparr>,
      \<lparr> td_name = ''B'', td_description = db, td_notes = nb, td_dependencies = None,
        td_relatedFiles = rb, td_implementationGuide = ib, td_verificationCriteria = vb \<rparr>]
     append_mode gar
   = Inr ([\<lparr> task_id = gen 0, name = ''A'', description = da, notes_task = na,
             status = PENDING, dependencies = [\<lparr> taskId = gen 1 \<rparr>], createdAt = now,
             updatedAt = now, completedAt = None, summary = None, relatedFiles = ra,
             analysisResult = gar, implementationGuide = ia, verificationCriteria = va \<rparr>,
           \<lparr> task_id = gen 1, name = ''B'', description = db, notes_task = nb,
             status = PENDING, dependencies = [], createdAt = now, updatedAt = now,
             completedAt = None, summary = None, relatedFiles = rb, analysisResult = gar,
             implementationGuide = ib, verificationCriteria = vb \<rparr>],
          [\<lparr> task_id = gen 0, name = ''A'', description = da, notes_task = na,
             status = PENDING, dependencies = [\<lparr> taskId = gen 1 \<rparr>], createdAt = now,
             updatedAt = now, completedAt = None, summary = None, relatedFiles = ra,
             analysisResult = gar, implementationGuide = ia, verificationCriteria = va \<rparr>,
           \<lparr> task_id = gen 1, name = ''B'', description = db, notes_task = nb,
             status = PENDING, dependencies = [], createdAt = now, updatedAt = now,
             completedAt = None, summary = None, relatedFiles = rb, analysisResult = gar,
             implementationGuide = ib, verificationCriteria = vb \<rparr>])
   \<and> taskNameToIdMap
       (materializeAll gen now []
          [\<lparr> td_name = ''A'', td_description = da, td_notes = na, td_dependencies = Some [''B''],
             td_relatedFiles = ra, td_implementationGuide = ia, td_verificationCriteria = va \<rparr>,
           \<lparr> td_name = ''B'', td_description = db, td_notes = nb, td_dependencies = None,
             td_relatedFiles = rb, td_implementationGuide = ib, td_verificationCriteria = vb \<rparr>]
          append_mode gar) ''B''
     = Some (gen 1)"
  by (simp add: batchCreateOrUpdateTasks_def materializeAll_def materialize_def newTaskOf_def
      initialTasksToKeep_def initialNameToIdMap_def matches_uuid_def hasDependencies_def
      dependencyNames_def Let_def)

section \<open>Lemmas: updateTask on a completed task\<close>

lemma getTaskById_findIndex:
  "getTaskById store i = Some t \<longleftrightarrow>
   (\<exists>k. findIndex (\<lambda>x. task_id x = i) store = Some k \<and> k < length store \<and> store ! k = t)"
  unfolding getTaskById_def find_findIndex
  by (auto dest: findIndex_Some)

lemma key_if_set: "set (key_if v k) = (if v = None then {} else {k})"
  by (cases v) (simp_all add: key_if_def)

lemma Object_keys_allowed_iff:
  "set (Object_keys u) \<subseteq> set allowedFields \<longleftrightarrow>
   u_id u = None \<and> u_name u = None \<and> u_description u = None \<and> u_notes u = None \<and>
   u_status u = None \<and> u_dependencies u = None \<and> u_createdAt u = None \<and>
   u_updatedAt u = None \<and> u_completedAt u = None \<and> u_analysisResult u = None \<and>
   u_implementationGuide u = None \<and> u_verificationCriteria u = None"
  by (simp add: Object_keys_def key_if_set allowedFields_def)

lemma disallowed_iff:
  "filter (\<lambda>field. field \<notin> set allowedFields) (Object_keys u) \<noteq> []
   \<longleftrightarrow> \<not> set (Object_keys u) \<subseteq> set allowedFields"
  by (auto simp: filter_empty_conv)

lemma spread_allowed:
  assumes "set (Object_keys u) \<subseteq> set allowedFields"
  shows "spread t u = t \<lparr> summary := override (summary t) (u_summary u),
                          relatedFiles := override (relatedFiles t) (u_relatedFiles u) \<rparr>"
  using assms unfolding Object_keys_allowed_iff
  by (simp add: spread_def override_def)


section \<open>Completed tasks accept only summary and relatedFiles\<close>

text \<open>
  Claim C6. Let the stored task with the given identifier (the one \<open>getTaskById\<close>
  finds) be COMPLETED. Then
  \<^item> \<open>updateTask\<close> with an updates object that has a key other than \<open>summary\<close>
    and \<open>relatedFiles\<close> returns \<open>null\<close> and leaves the store as it was;
  \<^item> \<open>updateTaskStatus\<close>, for any status, returns \<open>null\<close> and leaves the store
    as it was;
  \<^item> \<open>updateTaskContent\<close>, for any content, fails with the message that a completed
    task cannot be updated and leaves the store as it was;
  \<^item> \<open>updateTask\<close> with an updates object whose keys are among \<open>summary\<close> and
    \<open>relatedFiles\<close> succeeds: it returns the task with these two fields taken from
    the updates where given and \<open>updatedAt\<close> set to the current time, and writes the
    store with that task in the place of the old one.
\<close>

theorem C6_completed_task_update_rejected:
  assumes "getTaskById store taskId' = Some t" and "status t = COMPLETED"
  shows "(\<not> set (Object_keys updates) \<subseteq> {''summary'', ''relatedFiles''} \<longrightarrow>
            updateTask now store taskId' updates = (None, store))
       \<and> updateTaskStatus now store taskId' newStatus = (None, store)
       \<and> updateTaskContent now store taskId' contentUpdates
           = (\<lparr> success = False, message = ''Cannot update completed task'', task = None \<rparr>, store)
       \<and> (set (Object_keys updates) \<subseteq> {''summary'', ''relatedFiles''} \<longrightarrow>
            (\<exists>k<length store. store ! k = t \<and>
               updateTask now store taskId' updates
                 = (Some (t \<lparr> summary := override (summary t) (u_summary updates),
                              relatedFiles := override (relatedFiles t) (u_relatedFiles updates),
                              updatedAt := now \<rparr>),
                    store [k := t \<lparr> summary := override (summary t) (u_summary updates),
                              relatedFiles := override (relatedFiles t) (u_relatedFiles updates),
                              updatedAt := now \<rparr>])))"
proof -
  from assms(1) obtain k where k: "findIndex (\<lambda>x. task_id x = taskId') store = Some k"
    "k < length store" "store ! k = t"
    unfolding getTaskById_findIndex by blast
  have allowed: "set allowedFields = {''summary'', ''relatedFiles''}"
    by (simp add: allowedFields_def)
  have rejected: "updateTask now store taskId' u = (None, store)"
    if "\<not> set (Object_keys u) \<subseteq> {''summary'', ''relatedFiles''}" for u
    using that k assms(2) unfolding updateTask_def allowed[symmetric] disallowed_iff[symmetric]
    by simp
  have 1: "\<not> set (Object_keys updates) \<subseteq> {''summary'', ''relatedFiles''} \<longrightarrow>
            updateTask now store taskId' updates = (None, store)"
    using rejected by blast
  have "''status'' \<in> set (Object_keys (noUpdates \<lparr> u_status := Some newStatus,
      u_completedAt := (if newStatus = COMPLETED then Some (Some now) else None) \<rparr>))"
    by (simp add: Object_keys_def key_if_set noUpdates_def)
  then have 2: "updateTaskStatus now store taskId' newStatus = (None, store)"
    unfolding updateTaskStatus_def by (intro rejected) auto
  have 3: "updateTaskContent now store taskId' contentUpdates
      = (\<lparr> success = False, message = ''Cannot update completed task'', task = None \<rparr>, store)"
    using assms by (simp add: updateTaskContent_def)
  have 4: "\<exists>k<length store. store ! k = t \<and>
      updateTask now store taskId' updates
        = (Some (t \<lparr> summary := override (summary t) (u_summary updates),
                     relatedFiles := override (relatedFiles t) (u_relatedFiles updates),
                     updatedAt := now \<rparr>),
           store [k := t \<lparr> summary := override (summary t) (u_summary updates),
                     relatedFiles := override (relatedFiles t) (u_relatedFiles updates),
                     updatedAt := now \<rparr>])"
    if ok: "set (Object_keys updates) \<subseteq> {''summary'', ''relatedFiles''}"
  proof -
    from ok have ok': "set (Object_keys updates) \<subseteq> set allowedFields"
      unfolding allowed .
    then have "filter (\<lambda>field. field \<notin> set allowedFields) (Object_keys updates) = []"
      using disallowed_iff[of updates] by blast
    then have "updateTask now store taskId' updates
        = (Some ((spread t updates) \<lparr> updatedAt := now \<rparr>),
           store [k := (spread t updates) \<lparr> updatedAt := now \<rparr>])"
      using k unfolding updateTask_def by (simp add: Let_def)
    then show ?thesis using k(2,3) unfolding spread_allowed[OF ok'] by auto
  qed
  from 1 2 3 4 show ?thesis by blast
qed

text \<open>
  The theorem on a store holding one completed task: renaming it is rejected, giving it
  a summary succeeds.
\<close>

theorem C6_witness:
  "updateTask 50 [exampleTask ''c1'' ''X'' COMPLETED []] ''c1'' (noUpdates \<lparr> u_name := Some ''Y'' \<rparr>)
     = (None, [exampleTask ''c1'' ''X'' COMPLETED []])
   \<and> updateTask 50 [exampleTask ''c1'' ''X'' COMPLETED []] ''c1''
       (noUpdates \<lparr> u_summary := Some (Some ''done'') \<rparr>)
     = (Some ((exampleTask ''c1'' ''X'' COMPLETED []) \<lparr> summary := Some ''done'', updatedAt := 50 \<rparr>),
        [(exampleTask ''c1'' ''X'' COMPLETED []) \<lparr> summary := Some ''done'', updatedAt := 50 \<rparr>])"
proof -
  let ?t = "exampleTask ''c1'' ''X'' COMPLETED []"
  have h: "getTaskById [?t] ''c1'' = Some ?t" "status ?t = COMPLETED"
    by (simp_all add: getTaskById_def exampleTask_def)
  have bad: "\<not> set (Object_keys (noUpdates \<lparr> u_name := Some ''Y'' \<rparr>)) \<subseteq> {''summary'', ''relatedFiles''}"
    by (simp add: Object_keys_def key_if_def noUpdates_def)
  have good: "set (Object_keys (noUpdates \<lparr> u_summary := Some (Some ''done'') \<rparr>)) \<subseteq> {''summary'', ''relatedFiles''}"
    by (simp add: Object_keys_def key_if_def noUpdates_def)
  from C6_completed_task_update_rejected[OF h, of "noUpdates \<lparr> u_name := Some ''Y'' \<rparr>" 50] bad
  have 1: "updateTask 50 [?t] ''c1'' (noUpdates \<lparr> u_name := Some ''Y'' \<rparr>) = (None, [?t])"
    by blast
  from C6_completed_task_update_rejected[OF h, of "noUpdates \<lparr> u_summary := Some (Some ''done'') \<rparr>" 50] good
  have "\<exists>k<length [?t]. [?t] ! k = ?t \<and>
      updateTask 50 [?t] ''c1'' (noUpdates \<lparr> u_summary := Some (Some ''done'') \<rparr>)
        = (Some (?t \<lparr> summary := override (summary ?t) (u_summary (noUpdates \<lparr> u_summary := Some (Some ''done'') \<rparr>)),
                     relatedFiles := override (relatedFiles ?t) (u_relatedFiles (noUpdates \<lparr> u_summary := Some (Some ''done'') \<rparr>)),
                     updatedAt := 50 \<rparr>),
           [?t] [k := ?t \<lparr> summary := override (summary ?t) (u_summary (noUpdates \<lparr> u_summary := Some (Some ''done'') \<rparr>)),
                     relatedFiles := override (relatedFiles ?t) (u_relatedFiles (noUpdates \<lparr> u_summary := Some (Some ''done'') \<rparr>)),
                     updatedAt := 50 \<rparr>])"
    by blast
  then have 2: "updateTask 50 [?t] ''c1'' (noUpdates \<lparr> u_summary := Some (Some ''done'') \<rparr>)
     = (Some (?t \<lparr> summary := Some ''done'', updatedAt := 50 \<rparr>),
        [?t \<lparr> summary := Some ''done'', updatedAt := 50 \<rparr>])"
    by (auto simp: override_def noUpdates_def exampleTask_def)
  from 1 2 show ?thesis by (rule conjI)
qed

lemma getTaskById_distinct:
  "distinct (map task_id store) \<Longrightarrow> t \<in> set store \<Longrightarrow> getTaskById store (task_id t) = Some t"
  unfolding getTaskById_findIndex using findIndex_distinct[of task_id store t] by blast

lemma getTaskById_None_iff: "getTaskById store i = None \<longleftrightarrow> i \<notin> task_id ` set store"
  unfolding getTaskById_def find_None_iff by auto

section \<open>Lemmas: deleteTask\<close>

lemma sublist_join: "x \<in> set xs \<Longrightarrow> sublist x (join sep xs)"
proof (induction sep xs rule: join.induct)
  case (1 sep)
  then show ?case by simp
next
  case (2 sep y)
  then show ?case by simp
next
  case (3 sep y z zs)
  show ?case
  proof (cases "x = y")
    case True
    then show ?thesis by (simp add: sublist_append_rightI)
  next
    case False
    with "3.prems" have "sublist x (join sep (z # zs))" by (intro "3.IH") simp
    then obtain ps ss where "join sep (z # zs) = ps @ x @ ss" unfolding sublist_def by blast
    then have "join sep (y # z # zs) = (y @ sep @ ps) @ x @ ss" by simp
    then show ?thesis unfolding sublist_def by blast
  qed
qed

lemma dependentTasksOf_eq:
  "dependentTasksOf store k i
     = filter (\<lambda>d. i \<in> taskId ` set (dependencies d)) (take k store @ drop (Suc k) store)"
  unfolding dependentTasksOf_def removeAt_def list_ex_iff
  by (rule filter_cong) auto


section \<open>Deletion is guarded\<close>

text \<open>
  Claim C7. \<open>deleteTask\<close> fails with "Task not found" and leaves the store as it was
  when no stored task has the identifier. Otherwise let \<open>t\<close> be the task found, at
  the first position \<open>k\<close> whose task has the identifier, and let the dependents be
  the tasks at the other positions that list the identifier among their dependencies.
  \<^item> When \<open>t\<close> is COMPLETED the call fails with "Cannot delete completed task" and
    leaves the store as it was.
  \<^item> When \<open>t\<close> is not COMPLETED and there is a dependent, the call fails and leaves
    the store as it was. Its message is the fixed sentence followed by the dependents
    in store order, separated by a comma and a space, each written as its name between
    double quotes followed by its identifier between \<open>(ID: \<close> and \<open>)\<close>; so
    the name and the identifier of every dependent occur in the message.
  \<^item> When \<open>t\<close> is not COMPLETED and nothing depends on it, the call succeeds and
    writes the store without position \<open>k\<close>.
\<close>

theorem C7_deleteTask_guards:
  "(taskId' \<notin> task_id ` set store \<longrightarrow>
      deleteTask store taskId' = (\<lparr> success = False, message = ''Task not found'' \<rparr>, store))
   \<and> (\<forall>t. getTaskById store taskId' = Some t \<longrightarrow>
        (\<exists>k<length store. store ! k = t \<and> (\<forall>j<k. task_id (store ! j) \<noteq> taskId') \<and>
           (let others = take k store @ drop (Suc k) store;
                dependents = filter (\<lambda>d. taskId' \<in> taskId ` set (dependencies d)) others
            in (status t = COMPLETED \<longrightarrow>
                  deleteTask store taskId'
                    = (\<lparr> success = False, message = ''Cannot delete completed task'' \<rparr>, store))
             \<and> (status t \<noteq> COMPLETED \<and> dependents \<noteq> [] \<longrightarrow>
                  deleteTask store taskId'
                    = (\<lparr> success = False,
                         message =
                           ''Cannot delete this task because the following tasks depend on it: '' @
                           join '', ''
                             (map (\<lambda>d. [CHR 0x22] @ name d @ [CHR 0x22] @ '' (ID: '' @
                                        task_id d @ '')'') dependents) \<rparr>, store)
                  \<and> (\<forall>d\<in>set dependents.
                        sublist ([CHR 0x22] @ name d @ [CHR 0x22] @ '' (ID: '' @ task_id d @ '')'')
                          (message (fst (deleteTask store taskId'))) \<and>
                        sublist (name d) (message (fst (deleteTask store taskId'))) \<and>
                        sublist (task_id d) (message (fst (deleteTask store taskId')))))
             \<and> (status t \<noteq> COMPLETED \<and> dependents = [] \<longrightarrow>
                  deleteTask store taskId'
                    = (\<lparr> success = True, message = ''Task deleted successfully'' \<rparr>, others)))))"
proof (intro conjI allI impI)
  assume "taskId' \<notin> task_id ` set store"
  then have "findIndex (\<lambda>x. task_id x = taskId') store = None"
    by (auto simp: findIndex_None_iff)
  then show "deleteTask store taskId' = (\<lparr> success = False, message = ''Task not found'' \<rparr>, store)"
    by (simp add: deleteTask_def)
next
  fix t assume "getTaskById store taskId' = Some t"
  then obtain k where k: "findIndex (\<lambda>x. task_id x = taskId') store = Some k"
    "k < length store" "store ! k = t"
    unfolding getTaskById_findIndex by blast
  from findIndex_Some[OF k(1)] have first: "\<forall>j<k. task_id (store ! j) \<noteq> taskId'" by blast
  let ?others = "take k store @ drop (Suc k) store"
  let ?deps = "filter (\<lambda>d. taskId' \<in> taskId ` set (dependencies d)) ?others"
  let ?tmpl = "\<lambda>d. [CHR 0x22] @ name d @ [CHR 0x22] @ '' (ID: '' @ task_id d @ '')''"
  let ?msg = "''Cannot delete this task because the following tasks depend on it: '' @
                           join '', '' (map ?tmpl ?deps)"
  have tmpl: "map dependentTaskName xs = map ?tmpl xs" for xs
    by (simp add: dependentTaskName_def)
  have a: "deleteTask store taskId'
      = (\<lparr> success = False, message = ''Cannot delete completed task'' \<rparr>, store)"
    if "status t = COMPLETED"
    using that k by (simp add: deleteTask_def)
  have b1: "deleteTask store taskId' = (\<lparr> success = False, message = ?msg \<rparr>, store)"
    if "status t \<noteq> COMPLETED \<and> ?deps \<noteq> []"
    using that k by (simp add: deleteTask_def dependentTasksOf_eq Let_def tmpl)
  have b2: "\<forall>d\<in>set ?deps.
      sublist (?tmpl d) (message (fst (deleteTask store taskId'))) \<and>
      sublist (name d) (message (fst (deleteTask store taskId'))) \<and>
      sublist (task_id d) (message (fst (deleteTask store taskId')))"
    if "status t \<noteq> COMPLETED \<and> ?deps \<noteq> []"
  proof
    fix d assume "d \<in> set ?deps"
    then have "?tmpl d \<in> set (map ?tmpl ?deps)"
      unfolding set_map by (rule imageI)
    then have "sublist (?tmpl d) (join '', '' (map ?tmpl ?deps))"
      by (rule sublist_join)
    then obtain ps ss where "join '', '' (map ?tmpl ?deps) = ps @ ?tmpl d @ ss"
      unfolding sublist_def by blast
    then have m: "?msg = (''Cannot delete this task because the following tasks depend on it: '' @ ps)
        @ ?tmpl d @ ss" by simp
    then have s1: "sublist (?tmpl d) ?msg" unfolding sublist_def by blast
    have "?msg = (''Cannot delete this task because the following tasks depend on it: '' @ ps
        @ [CHR 0x22]) @ name d @ ([CHR 0x22] @ '' (ID: '' @ task_id d @ '')'' @ ss)"
      unfolding m by simp
    then have s2: "sublist (name d) ?msg" unfolding sublist_def by blast
    have "?msg = (''Cannot delete this task because the following tasks depend on it: '' @ ps
        @ [CHR 0x22] @ name d @ [CHR 0x22] @ '' (ID: '') @ task_id d @ ('')'' @ ss)"
      unfolding m by simp
    then have s3: "sublist (task_id d) ?msg" unfolding sublist_def by blast
    from s1 s2 s3
    show "sublist (?tmpl d) (message (fst (deleteTask store taskId'))) \<and>
      sublist (name d) (message (fst (deleteTask store taskId'))) \<and>
      sublist (task_id d) (message (fst (deleteTask store taskId')))"
      unfolding b1[OF that] by simp
  qed
  have c: "deleteTask store taskId'
      = (\<lparr> success = True, message = ''Task deleted successfully'' \<rparr>, ?others)"
    if "status t \<noteq> COMPLETED \<and> ?deps = []"
    using that k by (simp add: deleteTask_def dependentTasksOf_eq Let_def removeAt_def)
  have body: "(status t = COMPLETED \<longrightarrow>
                  deleteTask store taskId'
                    = (\<lparr> success = False, message = ''Cannot delete completed task'' \<rparr>, store))
             \<and> (status t \<noteq> COMPLETED \<and> ?deps \<noteq> [] \<longrightarrow>
                  deleteTask store taskId' = (\<lparr> success = False, message = ?msg \<rparr>, store)
                  \<and> (\<forall>d\<in>set ?deps.
                        sublist (?tmpl d) (message (fst (deleteTask store taskId'))) \<and>
                        sublist (name d) (message (fst (deleteTask store taskId'))) \<and>
                        sublist (task_id d) (message (fst (deleteTask store taskId')))))
             \<and> (status t \<noteq> COMPLETED \<and> ?deps = [] \<longrightarrow>
                  deleteTask store taskId'
                    = (\<lparr> success = True, message = ''Task deleted successfully'' \<rparr>, ?others))"
    using a b1 b2 c by (intro conjI impI)
  show "\<exists>k<length store. store ! k = t \<and> (\<forall>j<k. task_id (store ! j) \<noteq> taskId') \<and>
           (let others = take k store @ drop (Suc k) store;
                dependents = filter (\<lambda>d. taskId' \<in> taskId ` set (dependencies d)) others
            in (status t = COMPLETED \<longrightarrow>
                  deleteTask store taskId'
                    = (\<lparr> success = False, message = ''Cannot delete completed task'' \<rparr>, store))
             \<and> (status t \<noteq> COMPLETED \<and> dependents \<noteq> [] \<longrightarrow>
                  deleteTask store taskId'
                    = (\<lparr> success = False,
                         message =
                           ''Cannot delete this task because the following tasks depend on it: '' @
                           join '', ''
                             (map (\<lambda>d. [CHR 0x22] @ name d @ [CHR 0x22] @ '' (ID: '' @
                                        task_id d @ '')'') dependents) \<rparr>, store)
                  \<and> (\<forall>d\<in>set dependents.
                        sublist ([CHR 0x22] @ name d @ [CHR 0x22] @ '' (ID: '' @ task_id d @ '')'')
                          (message (fst (deleteTask store taskId'))) \<and>
                        sublist (name d) (message (fst (deleteTask store taskId'))) \<and>
                        sublist (task_id d) (message (fst (deleteTask store taskId')))))
             \<and> (status t \<noteq> COMPLETED \<and> dependents = [] \<longrightarrow>
                  deleteTask store taskId'
                    = (\<lparr> success = True, message = ''Task deleted successfully'' \<rparr>, others)))"
    unfolding Let_def
    apply (rule exI[of _ k])
    apply (rule conjI[OF k(2)])
    apply (rule conjI[OF k(3)])
    apply (rule conjI[OF first])
    apply (rule body)
    done
qed

text \<open>
  The theorem on a store of three pending tasks where b and c depend on a: an unknown
  identifier is not found, and deleting a is refused with b and c named in the
  message, which is written out.
\<close>

theorem C7_witness:
  "deleteTask [exampleTask ''a'' ''A'' PENDING [], exampleTask ''b'' ''B'' PENDING [''a''],
               exampleTask ''c'' ''C'' PENDING [''a'']] ''zz''
     = (\<lparr> success = False, message = ''Task not found'' \<rparr>,
        [exampleTask ''a'' ''A'' PENDING [], exampleTask ''b'' ''B'' PENDING [''a''],
         exampleTask ''c'' ''C'' PENDING [''a'']])
   \<and> deleteTask [exampleTask ''a'' ''A'' PENDING [], exampleTask ''b'' ''B'' PENDING [''a''],
                 exampleTask ''c'' ''C'' PENDING [''a'']] ''a''
     = (\<lparr> success = False,
          message = ''Cannot delete this task because the following tasks depend on it: '' @
            [CHR 0x22] @ ''B'' @ [CHR 0x22] @ '' (ID: b), '' @
            [CHR 0x22] @ ''C'' @ [CHR 0x22] @ '' (ID: c)'' \<rparr>,
        [exampleTask ''a'' ''A'' PENDING [], exampleTask ''b'' ''B'' PENDING [''a''],
         exampleTask ''c'' ''C'' PENDING [''a'']])"
proof -
  let ?a = "exampleTask ''a'' ''A'' PENDING []" and ?b = "exampleTask ''b'' ''B'' PENDING [''a'']"
    and ?c = "exampleTask ''c'' ''C'' PENDING [''a'']"
  let ?store = "[?a, ?b, ?c]"
  have nf: "''zz'' \<notin> task_id ` set ?store" by (simp add: exampleTask_def)
  note c7z = C7_deleteTask_guards[of "''zz''" ?store]
  from c7z[THEN conjunct1, THEN mp, OF nf]
  have 1: "deleteTask ?store ''zz'' = (\<lparr> success = False, message = ''Task not found'' \<rparr>, ?store)" .
  have g: "getTaskById ?store ''a'' = Some ?a" by (simp add: getTaskById_def exampleTask_def)
  note c7a = C7_deleteTask_guards[of "''a''" ?store, THEN conjunct2, THEN spec, THEN mp, OF g,
      unfolded Let_def]
  from c7a obtain k where k: "k < length ?store" "?store ! k = ?a"
    and rest: "status ?a \<noteq> COMPLETED \<and>
        filter (\<lambda>d. ''a'' \<in> taskId ` set (dependencies d)) (take k ?store @ drop (Suc k) ?store) \<noteq> [] \<longrightarrow>
        deleteTask ?store ''a''
          = (\<lparr> success = False,
               message =
                 ''Cannot delete this task because the following tasks depend on it: '' @
                 join '', ''
                   (map (\<lambda>d. [CHR 0x22] @ name d @ [CHR 0x22] @ '' (ID: '' @ task_id d @ '')'')
                      (filter (\<lambda>d. ''a'' \<in> taskId ` set (dependencies d))
                         (take k ?store @ drop (Suc k) ?store))) \<rparr>, ?store)
        \<and> (\<forall>d\<in>set (filter (\<lambda>d. ''a'' \<in> taskId ` set (dependencies d))
                         (take k ?store @ drop (Suc k) ?store)).
              sublist ([CHR 0x22] @ name d @ [CHR 0x22] @ '' (ID: '' @ task_id d @ '')'')
                (message (fst (deleteTask ?store ''a''))) \<and>
              sublist (name d) (message (fst (deleteTask ?store ''a''))) \<and>
              sublist (task_id d) (message (fst (deleteTask ?store ''a''))))"
    by (elim exE conjE)
  from k have k0: "k = 0"
    by (cases k) (auto simp: exampleTask_def less_Suc_eq nth_Cons')
  from rest have 2: "deleteTask ?store ''a''
     = (\<lparr> success = False,
          message = ''Cannot delete this task because the following tasks depend on it: '' @
            [CHR 0x22] @ ''B'' @ [CHR 0x22] @ '' (ID: b), '' @
            [CHR 0x22] @ ''C'' @ [CHR 0x22] @ '' (ID: c)'' \<rparr>, ?store)"
    unfolding k0 by (simp add: exampleTask_def)
  from 1 2 show ?thesis by (rule conjI)
qed

section \<open>Archive and clear\<close>

text \<open>
  Claim C8. On an empty live set \<open>clearAllTasks\<close> succeeds and leaves every file as
  it was: no archive document is written. On a live set that is not empty it succeeds,
  returns the archive file name, writes under that name in the memory directory the
  live tasks that are COMPLETED, in their order, and nothing else (a task is archived
  exactly when it is live and COMPLETED), leaves the other archive documents as they
  were, and writes the empty list to the live store.
\<close>

theorem C8_clearAllTasks_archives_completed:
  "(tasks_file fs = [] \<longrightarrow>
      clearAllTasks isoNow fs
        = (\<lparr> success = True, message = ''No tasks to clear'', backupFile = None \<rparr>, fs))
   \<and> (tasks_file fs \<noteq> [] \<longrightarrow>
        success (fst (clearAllTasks isoNow fs)) \<and>
        backupFile (fst (clearAllTasks isoNow fs)) = Some (backupFileNameAt isoNow) \<and>
        memory_dir (snd (clearAllTasks isoNow fs)) (backupFileNameAt isoNow)
          = Some (filter (\<lambda>t. status t = COMPLETED) (tasks_file fs)) \<and>
        (\<forall>t. t \<in> set (the (memory_dir (snd (clearAllTasks isoNow fs)) (backupFileNameAt isoNow)))
               \<longleftrightarrow> t \<in> set (tasks_file fs) \<and> status t = COMPLETED) \<and>
        (\<forall>f. f \<noteq> backupFileNameAt isoNow \<longrightarrow>
               memory_dir (snd (clearAllTasks isoNow fs)) f = memory_dir fs f) \<and>
        tasks_file (snd (clearAllTasks isoNow fs)) = [])"
  by (auto simp: clearAllTasks_def Let_def)


text \<open>
  The theorem on a live set of one completed and one pending task, with the file name
  computed from a concrete timestamp.
\<close>

theorem C8_witness:
  "backupFile (fst (clearAllTasks ''2026-11-03T10:01:02.345Z''
       \<lparr> tasks_file = [exampleTask ''c1'' ''C'' COMPLETED [], exampleTask ''p1'' ''P'' PENDING []],
         memory_dir = Map.empty \<rparr>))
     = Some ''tasks_memory_2026-11-03T10-01-02.json''
   \<and> memory_dir (snd (clearAllTasks ''2026-11-03T10:01:02.345Z''
       \<lparr> tasks_file = [exampleTask ''c1'' ''C'' COMPLETED [], exampleTask ''p1'' ''P'' PENDING []],
         memory_dir = Map.empty \<rparr>)) ''tasks_memory_2026-11-03T10-01-02.json''
     = Some [exampleTask ''c1'' ''C'' COMPLETED []]
   \<and> tasks_file (snd (clearAllTasks ''2026-11-03T10:01:02.345Z''
       \<lparr> tasks_file = [exampleTask ''c1'' ''C'' COMPLETED [], exampleTask ''p1'' ''P'' PENDING []],
         memory_dir = Map.empty \<rparr>)) = []"
proof -
  let ?fs = "\<lparr> tasks_file = [exampleTask ''c1'' ''C'' COMPLETED [], exampleTask ''p1'' ''P'' PENDING []],
         memory_dir = Map.empty \<rparr>"
  have n: "backupFileNameAt ''2026-11-03T10:01:02.345Z'' = ''tasks_memory_2026-11-03T10-01-02.json''"
    by (simp add: backupFileNameAt_def replaceColons_def isLineTerminator_def)
  have ne: "tasks_file ?fs \<noteq> []" by simp
  from C8_clearAllTasks_archives_completed[of ?fs "''2026-11-03T10:01:02.345Z''"] ne
  have "backupFile (fst (clearAllTasks ''2026-11-03T10:01:02.345Z'' ?fs))
          = Some (backupFileNameAt ''2026-11-03T10:01:02.345Z'')"
    and "memory_dir (snd (clearAllTasks ''2026-11-03T10:01:02.345Z'' ?fs))
          (backupFileNameAt ''2026-11-03T10:01:02.345Z'')
          = Some (filter (\<lambda>t. status t = COMPLETED) (tasks_file ?fs))"
    and "tasks_file (snd (clearAllTasks ''2026-11-03T10:01:02.345Z'' ?fs)) = []"
    by blast+
  then show ?thesis unfolding n by (simp add: exampleTask_def)
qed

section \<open>Lemmas: pagination\<close>

lemma length_insertBy [simp]: "length (insertBy cmp x xs) = Suc (length xs)"
  by (induction xs) simp_all

lemma length_sortBy [simp]: "length (sortBy cmp xs) = length xs"
  by (induction xs) (simp_all add: sortBy_def)

lemma ceilDiv_pos:
  assumes "0 < b" "0 \<le> a"
  shows "0 \<le> ceilDiv a b" and "ceilDiv a b = 0 \<longleftrightarrow> a = 0"
    and "c < ceilDiv a b \<longleftrightarrow> c * b < a"
proof -
  have lt: "c < ceilDiv a b \<longleftrightarrow> c * b < a" for c
  proof -
    have "c < ceilDiv a b \<longleftrightarrow> (- a) div b < - c" unfolding ceilDiv_def by linarith
    also have "\<dots> \<longleftrightarrow> (- a) div b + c < 0" by linarith
    also have "(- a) div b + c = (- a + c * b) div b"
      using assms(1) div_mult_self1[of b "- a" c] by (simp add: ac_simps)
    also have "(- a + c * b) div b < 0 \<longleftrightarrow> - a + c * b < 0"
      using assms(1) by (rule pos_imp_zdiv_neg_iff)
    also have "\<dots> \<longleftrightarrow> c * b < a" by linarith
    finally show ?thesis .
  qed
  then show "c < ceilDiv a b \<longleftrightarrow> c * b < a" .
  have "- 1 < ceilDiv a b" using lt[of "- 1"] assms by simp
  then show nn: "0 \<le> ceilDiv a b" by simp
  have "0 < ceilDiv a b \<longleftrightarrow> 0 < a" using lt[of 0] by simp
  with nn assms(2) show "ceilDiv a b = 0 \<longleftrightarrow> a = 0" by linarith
qed

lemma slice_in_range:
  assumes "0 \<le> start" "start \<le> stop" "stop \<le> int (length xs)"
  shows "slice xs start stop = take (nat (stop - start)) (drop (nat start) xs)"
  using assms by (simp add: slice_def Let_def min_def)


lemma take_page:
  assumes "0 \<le> s" "s \<le> int (length xs)" "0 < ps"
  shows "take (nat (min (s + ps) (int (length xs)) - s)) (drop (nat s) xs)
           = take (nat ps) (drop (nat s) xs)"
proof (cases "s + ps \<le> int (length xs)")
  case True
  then show ?thesis by (simp add: min_def)
next
  case False
  have len: "length (drop (nat s) xs) = length xs - nat s" by simp
  have 1: "length xs - nat s \<le> nat (int (length xs) - s)" using assms(1,2) by linarith
  have 2: "length xs - nat s \<le> nat ps" using False assms(1) by linarith
  have "take (nat (int (length xs) - s)) (drop (nat s) xs) = drop (nat s) xs"
    using 1 len by (intro take_all) simp
  moreover have "take (nat ps) (drop (nat s) xs) = drop (nat s) xs"
    using 2 len by (intro take_all) simp
  moreover have "min (s + ps) (int (length xs)) = int (length xs)" using False by simp
  ultimately show ?thesis by simp
qed

lemma paginate_positive:
  assumes "0 < pageSize"
  shows "paginate allTasks page pageSize
     = \<lparr> tasks = take (nat pageSize)
           (drop (nat ((max 1 (min page (max 1 (ceilDiv (int (length allTasks)) pageSize))) - 1)
                       * pageSize)) allTasks),
         pagination =
           \<lparr> currentPage = max 1 (min page (max 1 (ceilDiv (int (length allTasks)) pageSize))),
             totalPages = max 1 (ceilDiv (int (length allTasks)) pageSize),
             totalResults = int (length allTasks),
             hasMore = (max 1 (min page (max 1 (ceilDiv (int (length allTasks)) pageSize)))
                          * pageSize < int (length allTasks)) \<rparr> \<rparr>"
proof -
  let ?n = "int (length allTasks)"
  let ?tp = "ceilDiv ?n pageSize"
  let ?cp = "max 1 (min page (max 1 ?tp))"
  let ?start = "(?cp - 1) * pageSize"
  have nn: "0 \<le> ?tp" by (rule ceilDiv_pos(1)[OF assms]) simp
  have tp0: "?tp = 0 \<longleftrightarrow> ?n = 0" by (rule ceilDiv_pos(2)[OF assms]) simp
  have lt: "c < ?tp \<longleftrightarrow> c * pageSize < ?n" for c
    by (rule ceilDiv_pos(3)[OF assms]) simp
  have tot: "(if ?tp = 0 then 1 else ?tp) = max 1 ?tp" using nn by (simp add: max_def)
  have cp1: "1 \<le> ?cp" by linarith
  have start0: "0 \<le> ?start" using cp1 assms by simp
  have startn: "?start \<le> ?n"
  proof (cases "?tp = 0")
    case True
    then have "?cp = 1" by linarith
    then show ?thesis by simp
  next
    case False
    with nn have "?cp \<le> ?tp" by linarith
    then have "?cp - 1 < ?tp" by linarith
    then have "(?cp - 1) * pageSize < ?n" unfolding lt .
    then show ?thesis by linarith
  qed
  let ?stop = "min (?start + pageSize) ?n"
  have "slice allTasks ?start ?stop = take (nat (?stop - ?start)) (drop (nat ?start) allTasks)"
    using start0 startn assms by (intro slice_in_range) simp_all
  also have "\<dots> = take (nat pageSize) (drop (nat ?start) allTasks)"
    using start0 startn assms by (rule take_page)
  finally have sl: "slice allTasks ?start ?stop = take (nat pageSize) (drop (nat ?start) allTasks)" .
  have hm: "(?cp < ?tp) = (?cp * pageSize < ?n)" by (rule lt)
  show ?thesis
    unfolding paginate_def Let_def tot sl hm by simp
qed


section \<open>Pagination of search results\<close>

text \<open>
  Claim C9. Let the combined, deduplicated and sorted results of a search be twelve
  tasks and the page size 5. Page 1 has 5 tasks and more follow; page 3 has 2 tasks and
  no more follow; page 99 gives what page 3 gives, with 3 as the current page. For any
  positive page size: \<open>totalResults\<close> is the number of results, \<open>totalPages\<close> is
  the number of pages needed for them and at least 1 (so 1 when there is no result),
  \<open>currentPage\<close> is the requested page clamped into the range from 1 to
  \<open>totalPages\<close>, \<open>hasMore\<close> tells whether results follow the current page, and
  the tasks are the slice of the results for the current page.
\<close>

theorem C9_pagination:
  "(length (combinedResults currentTasks matchedFiles query isId) = 12 \<longrightarrow>
      length (tasks (searchTasksWithCommand currentTasks matchedFiles query isId 1 5)) = 5 \<and>
      hasMore (pagination (searchTasksWithCommand currentTasks matchedFiles query isId 1 5)) \<and>
      length (tasks (searchTasksWithCommand currentTasks matchedFiles query isId 3 5)) = 2 \<and>
      \<not> hasMore (pagination (searchTasksWithCommand currentTasks matchedFiles query isId 3 5)) \<and>
      currentPage (pagination (searchTasksWithCommand currentTasks matchedFiles query isId 99 5)) = 3 \<and>
      searchTasksWithCommand currentTasks matchedFiles query isId 99 5
        = searchTasksWithCommand currentTasks matchedFiles query isId 3 5)
   \<and> (0 < pageSize \<longrightarrow>
        (let allTasks = combinedResults currentTasks matchedFiles query isId;
             r = searchTasksWithCommand currentTasks matchedFiles query isId page pageSize;
             p = pagination r
         in totalResults p = int (length allTasks) \<and>
            totalPages p = max 1 (ceilDiv (int (length allTasks)) pageSize) \<and>
            int (length allTasks) \<le> totalPages p * pageSize \<and>
            (allTasks = [] \<longrightarrow> totalPages p = 1) \<and>
            currentPage p = max 1 (min page (totalPages p)) \<and>
            1 \<le> currentPage p \<and> currentPage p \<le> totalPages p \<and>
            hasMore p = (currentPage p * pageSize < int (length allTasks)) \<and>
            tasks r = take (nat pageSize) (drop (nat ((currentPage p - 1) * pageSize)) allTasks)))"
proof (intro conjI impI)
  let ?all = "combinedResults currentTasks matchedFiles query isId"
  assume n: "length ?all = 12"
  have c: "ceilDiv 12 5 = 3" by (simp add: ceilDiv_def)
  have p: "paginate ?all pg 5
     = \<lparr> tasks = take 5 (drop (nat ((max 1 (min pg 3) - 1) * 5)) ?all),
         pagination = \<lparr> currentPage = max 1 (min pg 3), totalPages = 3, totalResults = 12,
             hasMore = (max 1 (min pg 3) * 5 < 12) \<rparr> \<rparr>" for pg
    using paginate_positive[of 5 ?all pg] by (simp add: n c)
  show "length (tasks (searchTasksWithCommand currentTasks matchedFiles query isId 1 5)) = 5"
    "hasMore (pagination (searchTasksWithCommand currentTasks matchedFiles query isId 1 5))"
    "length (tasks (searchTasksWithCommand currentTasks matchedFiles query isId 3 5)) = 2"
    "\<not> hasMore (pagination (searchTasksWithCommand currentTasks matchedFiles query isId 3 5))"
    "currentPage (pagination (searchTasksWithCommand currentTasks matchedFiles query isId 99 5)) = 3"
    "searchTasksWithCommand currentTasks matchedFiles query isId 99 5
        = searchTasksWithCommand currentTasks matchedFiles query isId 3 5"
    unfolding searchTasksWithCommand_def p by (simp_all add: n)
next
  let ?all = "combinedResults currentTasks matchedFiles query isId"
  let ?n = "int (length ?all)"
  assume ps: "0 < pageSize"
  let ?tp = "max 1 (ceilDiv ?n pageSize)"
  have lt: "c < ceilDiv ?n pageSize \<longleftrightarrow> c * pageSize < ?n" for c
    by (rule ceilDiv_pos(3)[OF ps]) simp
  have "\<not> ceilDiv ?n pageSize < ceilDiv ?n pageSize" by simp
  then have "?n \<le> ceilDiv ?n pageSize * pageSize" unfolding lt by simp
  also have "\<dots> \<le> ?tp * pageSize" using ps by (intro mult_right_mono) simp_all
  finally have cover: "?n \<le> ?tp * pageSize" .
  have empty: "?tp = 1" if "?all = []"
    using that ceilDiv_pos(2)[OF ps, of ?n] by simp
  have clamp: "1 \<le> max 1 (min page ?tp)" "max 1 (min page ?tp) \<le> ?tp" by linarith+
  show "let allTasks = combinedResults currentTasks matchedFiles query isId;
             r = searchTasksWithCommand currentTasks matchedFiles query isId page pageSize;
             p = pagination r
         in totalResults p = int (length allTasks) \<and>
            totalPages p = max 1 (ceilDiv (int (length allTasks)) pageSize) \<and>
            int (length allTasks) \<le> totalPages p * pageSize \<and>
            (allTasks = [] \<longrightarrow> totalPages p = 1) \<and>
            currentPage p = max 1 (min page (totalPages p)) \<and>
            1 \<le> currentPage p \<and> currentPage p \<le> totalPages p \<and>
            hasMore p = (currentPage p * pageSize < int (length allTasks)) \<and>
            tasks r = take (nat pageSize) (drop (nat ((currentPage p - 1) * pageSize)) allTasks)"
    unfolding Let_def searchTasksWithCommand_def paginate_positive[OF ps]
    using cover empty clamp by simp
qed


text \<open>
  The theorem on a store of twelve tasks with the empty query, and on the empty store.
\<close>

theorem C9_witness:
  "length (tasks (searchTasksWithCommand exampleStore12 [] [] False 1 5)) = 5
   \<and> hasMore (pagination (searchTasksWithCommand exampleStore12 [] [] False 1 5))
   \<and> length (tasks (searchTasksWithCommand exampleStore12 [] [] False 3 5)) = 2
   \<and> currentPage (pagination (searchTasksWithCommand exampleStore12 [] [] False 99 5)) = 3
   \<and> totalPages (pagination (searchTasksWithCommand [] [] [] False 7 5)) = 1
   \<and> currentPage (pagination (searchTasksWithCommand [] [] [] False 7 5)) = 1"
proof -
  have h: "length (combinedResults exampleStore12 [] [] False) = 12"
    by (simp add: combinedResults_def mergeResults_def filterCurrentTasks_def keywordsOf_def
        splitWhitespace_def memoryTasksOf_def exampleStore12_def exampleTask_def)
  have e: "combinedResults [] [] [] False = []"
    by (simp add: combinedResults_def mergeResults_def filterCurrentTasks_def keywordsOf_def
        splitWhitespace_def memoryTasksOf_def sortBy_def)
  have ps: "(0::int) < 5" by simp
  from C9_pagination[of exampleStore12 "[]" "[]" False] h
  have 1: "length (tasks (searchTasksWithCommand exampleStore12 [] [] False 1 5)) = 5"
    "hasMore (pagination (searchTasksWithCommand exampleStore12 [] [] False 1 5))"
    "length (tasks (searchTasksWithCommand exampleStore12 [] [] False 3 5)) = 2"
    "currentPage (pagination (searchTasksWithCommand exampleStore12 [] [] False 99 5)) = 3"
    by blast+
  from C9_pagination[of "[]" "[]" "[]" False 5 7] ps e
  have 2: "totalPages (pagination (searchTasksWithCommand [] [] [] False 7 5)) = 1"
    "currentPage (pagination (searchTasksWithCommand [] [] [] False 7 5)) = 1"
    by (simp_all add: Let_def ceilDiv_def)
  from 1 2 show ?thesis by blast
qed

section \<open>Lemmas: whitespace and case, as listed and as computed\<close>








section \<open>Lemmas: tokens of a query\<close>






section \<open>Lemmas: substrings, ignoring case\<close>









section \<open>Keyword search\<close>



end
